theory Spec2Isabelle
  imports Main
begin

section \<open>Constants and helpers of App.js\<close>

text \<open>
  The ledger engine of the BLAPL loyalty app lives in \<^verbatim>\<open>AppProvider\<close> (App.js).
  Numbers are JavaScript numbers holding integers (millisecond timestamps, counters);
  they are modelled as \<^typ>\<open>int\<close>, array lengths and the id counter as \<^typ>\<open>nat\<close>.
\<close>

definition CHECKIN_INTERVAL_HOURS :: int where
  "CHECKIN_INTERVAL_HOURS = 156"

definition CHECKIN_INTERVAL_MS :: int where
  "CHECKIN_INTERVAL_MS = CHECKIN_INTERVAL_HOURS * 3600 * 1000"

definition QR_CONSTANT :: string where
  "QR_CONSTANT = ''bla-poker-checkin''"

definition COUPON_MODULO :: int where
  "COUPON_MODULO = 5"

text \<open>
  \<^verbatim>\<open>(n).toString(36)\<close>: the digits of \<open>n\<close> in base 36, most significant first.
\<close>

definition digit36 :: "nat \<Rightarrow> char" where
  "digit36 d = ''0123456789abcdefghijklmnopqrstuvwxyz'' ! d"

function toString36 :: "nat \<Rightarrow> string" where
  "toString36 n = (if n < 36 then [digit36 n] else toString36 (n div 36) @ [digit36 (n mod 36)])"
  by pat_completeness auto
termination
  by (relation "measure (\<lambda>n. n)") auto

declare toString36.simps [simp del]

section \<open>Data model\<close>

text \<open>
  A check-in is \<^verbatim>\<open>{ id, ts }\<close>, a coupon \<^verbatim>\<open>{ id, createdAt, redeemedAt }\<close> with
  \<^verbatim>\<open>redeemedAt\<close> either \<^verbatim>\<open>null\<close> or a timestamp. A field named \<^verbatim>\<open>id\<close> or \<^verbatim>\<open>ts\<close>
  carries the record it belongs to as a suffix.
\<close>

record checkIn =
  id_ci :: string
  ts_ci :: int

record coupon =
  id_cp :: string
  createdAt :: int
  redeemedAt :: "int option"

record user =
  id_u :: string
  email :: string
  passwordHash :: string
  displayName :: string
  isAdmin :: bool
  isActive :: bool
  lastCheckInAt :: int
  totalCheckIns :: int
  couponsAvailable :: int
  couponHistory :: "coupon list"
  checkIns :: "checkIn list"

text \<open>The values the audit metadata objects of App.js hold.\<close>

datatype metaValue = Str string | Num int | Strs "string list"

record auditEntry =
  id_log :: string
  type_log :: string
  meta :: "(string \<times> metaValue) list"
  ts_log :: int
  actorUserId :: "string option"

text \<open>
  The state of \<^verbatim>\<open>AppProvider\<close>: the three \<^verbatim>\<open>useState\<close> cells, the three
  \<^verbatim>\<open>useRef\<close> cells of the check-in guards, and the module-level \<^verbatim>\<open>_idCounter\<close>.
  The audit log is kept newest first.
\<close>

record state =
  users :: "user list"
  authUserId :: "string option"
  auditLog :: "auditEntry list"
  idCounter :: nat
  lastActionRef :: int
  lastScanValRef :: string
  lastScanTsRef :: int

text \<open>The messages of the four \<^verbatim>\<open>throw new Error(...)\<close> of \<^verbatim>\<open>performCheckIn\<close>.\<close>

datatype error = BUSY | DUPLICATE | TIME_ANOMALY | TOO_SOON

text \<open>
  What a call of an operation does, with the state it leaves:
  \<^item> \<open>Done\<close>: it completes.
  \<^item> \<open>Thrown\<close>: it throws to its caller. Only the two guards of \<^verbatim>\<open>performCheckIn\<close> that
    stand before its \<^verbatim>\<open>setUsers\<close> call do so.
  \<^item> \<open>Crashed\<close>: the updater it handed to \<^verbatim>\<open>setUsers\<close> throws. \<^verbatim>\<open>setUsers\<close> is React's
    state setter: React swallows an exception of a state updater, so the call returns
    normally to its caller, and throws it again while rendering, which (there is no
    error boundary) unmounts the whole tree. Nothing the updater returned or handed to
    \<^verbatim>\<open>setAuditLog\<close> is committed.
\<close>

datatype outcome = Done state | Thrown error state | Crashed error state

fun stateOf :: "outcome \<Rightarrow> state" where
  "stateOf (Done s) = s"
| "stateOf (Thrown e s) = s"
| "stateOf (Crashed e s) = s"

text \<open>
  The error of an outcome that is not \<open>Done\<close>, wherever it surfaces, and the error
  the caller of the operation catches.
\<close>

fun thrown :: "outcome \<Rightarrow> error option" where
  "thrown (Done s) = None"
| "thrown (Thrown e s) = Some e"
| "thrown (Crashed e s) = Some e"

fun caught :: "outcome \<Rightarrow> error option" where
  "caught (Done s) = None"
| "caught (Thrown e s) = Some e"
| "caught (Crashed e s) = None"

text \<open>JavaScript truthiness of a \<^verbatim>\<open>redeemedAt\<close>: \<^verbatim>\<open>null\<close> and \<^verbatim>\<open>0\<close> are falsy.\<close>

fun truthy :: "int option \<Rightarrow> bool" where
  "truthy None = False"
| "truthy (Some t) = (t \<noteq> 0)"

section \<open>Ids and the audit log\<close>

text \<open>
  \<^verbatim>\<open>genId(p)\<close> increments \<^verbatim>\<open>_idCounter\<close> and returns \<^verbatim>\<open>p + '_' + counter.toString(36)\<close>.
\<close>

definition genId :: "string \<Rightarrow> state \<Rightarrow> string \<times> state" where
  "genId p s =
     (p @ ''_'' @ toString36 (Suc (idCounter s)), s\<lparr>idCounter := Suc (idCounter s)\<rparr>)"

text \<open>
  \<^verbatim>\<open>commitAudit(type, meta, actorUserId)\<close> puts the new entry in front of
  \<^verbatim>\<open>l.slice(0,499)\<close>. An operation is given one reading \<open>now\<close> of the clock, which
  every \<^verbatim>\<open>now()\<close> inside it returns.
\<close>

definition commitAudit :: "string \<Rightarrow> (string \<times> metaValue) list \<Rightarrow> string option \<Rightarrow> int \<Rightarrow> state \<Rightarrow> state" where
  "commitAudit type meta' actor now s =
     (let (i, s1) = genId ''log'' s
      in s1\<lparr>auditLog :=
              \<lparr>id_log = i, type_log = type, meta = meta', ts_log = now, actorUserId = actor\<rparr>
              # take 499 (auditLog s1)\<rparr>)"

text \<open>\<^verbatim>\<open>users.find(u => u.id === id)\<close>.\<close>

definition findUser :: "string \<Rightarrow> state \<Rightarrow> user option" where
  "findUser i s = find (\<lambda>u. id_u u = i) (users s)"

text \<open>
  \<^verbatim>\<open>prev.map(updater)\<close> inside \<^verbatim>\<open>setUsers\<close>: the updater runs on the users in order,
  may write audit entries and draw ids, and may throw, which abandons the map.
\<close>

fun mapUsers :: "(user \<Rightarrow> state \<Rightarrow> (error \<times> state) + (user \<times> state)) \<Rightarrow> user list \<Rightarrow> state
    \<Rightarrow> (error \<times> state) + (user list \<times> state)" where
  "mapUsers f [] s = Inr ([], s)"
| "mapUsers f (u # us) s =
     (case f u s of
        Inl e \<Rightarrow> Inl e
      | Inr (u', s1) \<Rightarrow>
          (case mapUsers f us s1 of
             Inl e \<Rightarrow> Inl e
           | Inr (us', s2) \<Rightarrow> Inr (u' # us', s2)))"

text \<open>
  \<^verbatim>\<open>setUsers(updater)\<close>. An updater that returns takes effect at once, with the audit
  entries it wrote. An updater that throws does not throw to the caller of \<^verbatim>\<open>setUsers\<close>:
  the users and the audit log stay as they were (the entry the updater handed to
  \<^verbatim>\<open>setAuditLog\<close> is never committed), the ids its run drew from the module-level
  counter stay drawn, and rendering fails.
\<close>

definition setUsers :: "(user \<Rightarrow> state \<Rightarrow> (error \<times> state) + (user \<times> state)) \<Rightarrow> state \<Rightarrow> outcome" where
  "setUsers f s =
     (case mapUsers f (users s) s of
        Inl (e, s1) \<Rightarrow> Crashed e (s\<lparr>idCounter := idCounter s1\<rparr>)
      | Inr (us, s1) \<Rightarrow> Done (s1\<lparr>users := us\<rparr>))"

text \<open>\<^verbatim>\<open>updateUser(id, updater)\<close>: the updater is applied to the users with that id.\<close>

definition updateUser :: "string \<Rightarrow> (user \<Rightarrow> state \<Rightarrow> user \<times> state) \<Rightarrow> state \<Rightarrow> outcome" where
  "updateUser i updater s =
     setUsers (\<lambda>u s'. Inr (if id_u u = i then updater u s' else (u, s'))) s"

text \<open>\<^verbatim>\<open>xs.findIndex(p)\<close>, with \<open>None\<close> for \<^verbatim>\<open>-1\<close>.\<close>

fun findIndex :: "('a \<Rightarrow> bool) \<Rightarrow> 'a list \<Rightarrow> nat option" where
  "findIndex p [] = None"
| "findIndex p (x # xs) = (if p x then Some 0 else map_option Suc (findIndex p xs))"

section \<open>Coupon redemption\<close>

definition redeemCoupon_updater :: "string \<Rightarrow> int \<Rightarrow> user \<Rightarrow> state \<Rightarrow> user \<times> state" where
  "redeemCoupon_updater userId now u s =
     (if couponsAvailable u \<le> 0 then (u, s)
      else case findIndex (\<lambda>c. \<not> truthy (redeemedAt c)) (couponHistory u) of
        None \<Rightarrow> (u, s)
      | Some couponIdx \<Rightarrow>
          (let updatedHistory =
                 (couponHistory u)[couponIdx := (couponHistory u ! couponIdx)\<lparr>redeemedAt := Some now\<rparr>];
               s1 = commitAudit ''coupon.redeem''
                      [(''userId'', Str userId), (''couponId'', Str (id_cp (updatedHistory ! couponIdx)))]
                      (authUserId s) now s
           in (u\<lparr>couponsAvailable := couponsAvailable u - 1, couponHistory := updatedHistory\<rparr>, s1)))"

definition redeemCoupon :: "string \<Rightarrow> int \<Rightarrow> state \<Rightarrow> outcome" where
  "redeemCoupon userId now s = updateUser userId (redeemCoupon_updater userId now) s"

section \<open>Check-in\<close>

text \<open>
  The updater \<^verbatim>\<open>performCheckIn\<close> hands to \<^verbatim>\<open>setUsers\<close>, for one user \<open>u\<close>. A user with no
  prior check-in has \<^verbatim>\<open>lastCheckInAt\<close> \<^verbatim>\<open>0\<close>, which is falsy.
\<close>

definition performCheckIn_updater :: "string \<Rightarrow> int \<Rightarrow> user \<Rightarrow> state \<Rightarrow> (error \<times> state) + (user \<times> state)" where
  "performCheckIn_updater userId startTs u s =
     (if id_u u \<noteq> userId then Inr (u, s)
      else if lastCheckInAt u \<noteq> 0 \<and> startTs - lastCheckInAt u < 0 then
        Inl (TIME_ANOMALY,
             commitAudit ''clock.anomaly''
               [(''userId'', Str userId), (''last'', Num (lastCheckInAt u)), (''now'', Num startTs)]
               (authUserId s) startTs s)
      else if lastCheckInAt u \<noteq> 0 \<and> startTs - lastCheckInAt u < CHECKIN_INTERVAL_MS then
        Inl (TOO_SOON, s)
      else
        (let (ciId, s1) = genId ''ci'' s;
             newCheckIn = \<lparr>id_ci = ciId, ts_ci = startTs\<rparr>;
             newCheckIns = checkIns u @ [newCheckIn];
             total = totalCheckIns u + 1
         in if total mod COUPON_MODULO = 0 then
              (let (cpId, s2) = genId ''cp'' s1;
                   coupon = \<lparr>id_cp = cpId, createdAt = startTs, redeemedAt = None\<rparr>;
                   s3 = commitAudit ''coupon.create''
                          [(''userId'', Str userId), (''couponId'', Str cpId)] (authUserId s) startTs s2;
                   s4 = commitAudit ''checkin.add''
                          [(''userId'', Str userId), (''checkInId'', Str ciId)] (authUserId s) startTs s3
               in Inr (u\<lparr>checkIns := newCheckIns, totalCheckIns := total,
                          couponsAvailable := couponsAvailable u + 1,
                          couponHistory := couponHistory u @ [coupon],
                          lastCheckInAt := startTs\<rparr>, s4))
            else
              (let s2 = commitAudit ''checkin.add''
                          [(''userId'', Str userId), (''checkInId'', Str ciId)] (authUserId s) startTs s1
               in Inr (u\<lparr>checkIns := newCheckIns, totalCheckIns := total,
                          couponsAvailable := couponsAvailable u,
                          couponHistory := couponHistory u,
                          lastCheckInAt := startTs\<rparr>, s2))))"

definition performCheckIn :: "string \<Rightarrow> string \<Rightarrow> int \<Rightarrow> state \<Rightarrow> outcome" where
  "performCheckIn userId scanValue startTs s =
     (if startTs - lastActionRef s < 1200 then Thrown BUSY s
      else if scanValue \<noteq> [] \<and> scanValue = lastScanValRef s \<and> startTs - lastScanTsRef s < 2500 then
        Thrown DUPLICATE s
      else
        setUsers (performCheckIn_updater userId startTs)
          (s\<lparr>lastActionRef := startTs, lastScanValRef := scanValue, lastScanTsRef := startTs\<rparr>))"

text \<open>
  \<^verbatim>\<open>simulateScan(value)\<close> of \<^verbatim>\<open>ScanView\<close>, for the logged-in \<open>user\<close>: the message it
  sets and the state it leaves. Its \<^verbatim>\<open>catch\<close> sees only what \<^verbatim>\<open>performCheckIn\<close> throws to
  it; when \<^verbatim>\<open>performCheckIn\<close> returns, it sets the message of success, also when the
  updater threw and rendering is about to fail.
\<close>

datatype scanMessage =
  Invalid_code | Too_soon | Processing_previous_scan | Duplicate_scan_ignored
  | Device_time_anomaly | Check_in_successful

definition simulateScan :: "user \<Rightarrow> string \<Rightarrow> int \<Rightarrow> state \<Rightarrow> scanMessage \<times> state" where
  "simulateScan usr val now s =
     (if val \<noteq> QR_CONSTANT then (Invalid_code, s)
      else case performCheckIn (id_u usr) val now s of
        Done s' \<Rightarrow> (Check_in_successful, s')
      | Crashed e s' \<Rightarrow> (Check_in_successful, s')
      | Thrown TOO_SOON s' \<Rightarrow> (Too_soon, s')
      | Thrown BUSY s' \<Rightarrow> (Processing_previous_scan, s')
      | Thrown DUPLICATE s' \<Rightarrow> (Duplicate_scan_ignored, s')
      | Thrown TIME_ANOMALY s' \<Rightarrow> (Device_time_anomaly, s'))"

section \<open>Check-in deletion and reconciliation\<close>

text \<open>
  The \<^verbatim>\<open>for\<close> loop of \<^verbatim>\<open>deleteCheckIn\<close>: position \<open>i\<close> of the rebuilt history is the
  existing coupon at that position, or a fresh unredeemed coupon where none exists.
\<close>

function rebuildLoop :: "nat \<Rightarrow> nat \<Rightarrow> coupon list \<Rightarrow> int \<Rightarrow> coupon list \<Rightarrow> state \<Rightarrow> coupon list \<times> state" where
  "rebuildLoop i targetCouponCount existingSorted now rebuilt s =
     (if i < targetCouponCount then
        (if i < length existingSorted then
           rebuildLoop (i + 1) targetCouponCount existingSorted now (rebuilt @ [existingSorted ! i]) s
         else
           (let (cpId, s1) = genId ''cp'' s
            in rebuildLoop (i + 1) targetCouponCount existingSorted now
                 (rebuilt @ [\<lparr>id_cp = cpId, createdAt = now, redeemedAt = None\<rparr>]) s1))
      else (rebuilt, s))"
  by pat_completeness auto
termination
  by (relation "measure (\<lambda>(i, targetCouponCount, existingSorted, now, rebuilt, s). targetCouponCount - i)")
     (auto simp: genId_def)

declare rebuildLoop.simps [simp del]

definition deleteCheckIn_updater :: "string \<Rightarrow> string \<Rightarrow> int \<Rightarrow> user \<Rightarrow> state \<Rightarrow> user \<times> state" where
  "deleteCheckIn_updater userId checkInId now u s =
     (case findIndex (\<lambda>c. id_ci c = checkInId) (checkIns u) of
        None \<Rightarrow> (u, s)
      | Some idx \<Rightarrow>
          (let newCheckIns = filter (\<lambda>c. id_ci c \<noteq> checkInId) (checkIns u);
               total = length newCheckIns;
               targetCouponCount = total div nat COUPON_MODULO;
               existingSorted = sort_key createdAt (couponHistory u);
               (rebuilt, s1) = rebuildLoop 0 targetCouponCount existingSorted now [] s;
               redeemedRemoved =
                 (if length existingSorted > targetCouponCount
                  then filter (\<lambda>c. truthy (redeemedAt c)) (drop targetCouponCount existingSorted)
                  else []);
               s2 = (if redeemedRemoved \<noteq> [] then
                       commitAudit ''coupon.invalidate''
                         [(''userId'', Str userId), (''couponIds'', Strs (map id_cp redeemedRemoved))]
                         (authUserId s) now s1
                     else s1);
               couponsAvailable' = int (length (filter (\<lambda>c. \<not> truthy (redeemedAt c)) rebuilt));
               s3 = commitAudit ''checkin.delete''
                      [(''userId'', Str userId), (''checkInId'', Str checkInId)] (authUserId s) now s2
           in (u\<lparr>checkIns := newCheckIns, totalCheckIns := int total,
                  couponsAvailable := couponsAvailable', couponHistory := rebuilt,
                  lastCheckInAt := (if newCheckIns \<noteq> [] then ts_ci (last newCheckIns) else 0)\<rparr>, s3)))"

definition deleteCheckIn :: "string \<Rightarrow> string \<Rightarrow> int \<Rightarrow> state \<Rightarrow> outcome" where
  "deleteCheckIn userId checkInId now s =
     setUsers (\<lambda>u s'. Inr (if id_u u \<noteq> userId then (u, s') else deleteCheckIn_updater userId checkInId now u s')) s"

section \<open>Sequences of ledger operations\<close>

datatype op = CheckIn string string int | Redeem string int | Delete string string int

fun step :: "op \<Rightarrow> state \<Rightarrow> outcome" where
  "step (CheckIn userId scanValue now) s = performCheckIn userId scanValue now s"
| "step (Redeem userId now) s = redeemCoupon userId now s"
| "step (Delete userId checkInId now) s = deleteCheckIn userId checkInId now s"

fun opTime :: "op \<Rightarrow> int" where
  "opTime (CheckIn userId scanValue now) = now"
| "opTime (Redeem userId now) = now"
| "opTime (Delete userId checkInId now) = now"

text \<open>
  A sequence of operations, each run in the state the one before it left. After an
  operation whose updater threw, that state holds the users and the audit log as they
  were before the operation; the rendering that follows fails, so that the program
  itself takes no further operation there.
\<close>

fun run :: "op list \<Rightarrow> state \<Rightarrow> state" where
  "run [] s = s"
| "run (x # xs) s = run xs (stateOf (step x s))"

text \<open>
  Which user an operation is a check-in, a redemption or a deletion for, and how many
  check-ins of a user a sequence of operations completes (nothing thrown) and how
  many redemptions it performs (the user's record changes), run from state \<open>s\<close>.
\<close>

fun checkInOf :: "string \<Rightarrow> op \<Rightarrow> bool" where
  "checkInOf uid (CheckIn userId scanValue now) = (userId = uid)"
| "checkInOf uid (Redeem userId now) = False"
| "checkInOf uid (Delete userId checkInId now) = False"

fun redeemOf :: "string \<Rightarrow> op \<Rightarrow> bool" where
  "redeemOf uid (CheckIn userId scanValue now) = False"
| "redeemOf uid (Redeem userId now) = (userId = uid)"
| "redeemOf uid (Delete userId checkInId now) = False"

fun deleteOf :: "string \<Rightarrow> op \<Rightarrow> bool" where
  "deleteOf uid (CheckIn userId scanValue now) = False"
| "deleteOf uid (Redeem userId now) = False"
| "deleteOf uid (Delete userId checkInId now) = (userId = uid)"

fun checkInsDone :: "string \<Rightarrow> op list \<Rightarrow> state \<Rightarrow> nat" where
  "checkInsDone uid [] s = 0"
| "checkInsDone uid (x # xs) s =
     (if checkInOf uid x \<and> thrown (step x s) = None then 1 else 0)
     + checkInsDone uid xs (stateOf (step x s))"

fun redemptionsDone :: "string \<Rightarrow> op list \<Rightarrow> state \<Rightarrow> nat" where
  "redemptionsDone uid [] s = 0"
| "redemptionsDone uid (x # xs) s =
     (if redeemOf uid x \<and> findUser uid (stateOf (step x s)) \<noteq> findUser uid s then 1 else 0)
     + redemptionsDone uid xs (stateOf (step x s))"

section \<open>Auxiliary notions for the proofs\<close>

text \<open>The state an updater or a map over the users leaves, thrown or not.\<close>

fun resState :: "(error \<times> state) + ('a \<times> state) \<Rightarrow> state" where
  "resState (Inl (e, s)) = s"
| "resState (Inr (x, s)) = s"

text \<open>
  The audit log of \<open>s'\<close> is that of \<open>s\<close>, or some new entries in front of it, cut to
  the 500 most recent.
\<close>

definition auditExtends :: "state \<Rightarrow> state \<Rightarrow> bool" where
  "auditExtends s s' =
     (auditLog s' = auditLog s \<or> (\<exists>new. new \<noteq> [] \<and> auditLog s' = take 500 (new @ auditLog s)))"

text \<open>The coupons the loop of \<^verbatim>\<open>deleteCheckIn\<close> synthesizes when \<open>n\<close> positions lack one.\<close>

fun freshCoupons :: "nat \<Rightarrow> int \<Rightarrow> state \<Rightarrow> coupon list \<times> state" where
  "freshCoupons 0 now s = ([], s)"
| "freshCoupons (Suc n) now s =
     (let (cpId, s1) = genId ''cp'' s;
          (cs, s2) = freshCoupons n now s1
      in (\<lparr>id_cp = cpId, createdAt = now, redeemedAt = None\<rparr> # cs, s2))"

text \<open>
  The entry \<^verbatim>\<open>commitAudit(type, meta, authUserId)\<close> writes when called in state \<open>s\<close>.
\<close>

definition auditEntryOf :: "string \<Rightarrow> (string \<times> metaValue) list \<Rightarrow> int \<Rightarrow> state \<Rightarrow> auditEntry" where
  "auditEntryOf type meta' now s =
     \<lparr>id_log = fst (genId ''log'' s), type_log = type, meta = meta', ts_log = now,
      actorUserId = authUserId s\<rparr>"

text \<open>
  The quantities of \<^verbatim>\<open>deleteCheckIn\<close> for a user and the id of the check-in to delete:
  \<^verbatim>\<open>targetCouponCount\<close>, the coupons beyond that position in creation-time order
  (\<^verbatim>\<open>removed\<close>), and those of them that were redeemed (\<^verbatim>\<open>redeemedRemoved\<close>).
\<close>

definition targetCouponCountAfter :: "user \<Rightarrow> string \<Rightarrow> nat" where
  "targetCouponCountAfter u checkInId =
     length (filter (\<lambda>c. id_ci c \<noteq> checkInId) (checkIns u)) div 5"

definition droppedCoupons :: "user \<Rightarrow> string \<Rightarrow> coupon list" where
  "droppedCoupons u checkInId =
     drop (targetCouponCountAfter u checkInId) (sort_key createdAt (couponHistory u))"

definition redeemedDropped :: "user \<Rightarrow> string \<Rightarrow> coupon list" where
  "redeemedDropped u checkInId = filter (\<lambda>c. truthy (redeemedAt c)) (droppedCoupons u checkInId)"

section \<open>The ledger invariants\<close>

text \<open>
  I1 to I4 of the data model. \<^verbatim>\<open>lastCheckInAt\<close> is \<^verbatim>\<open>0\<close> for a user with no check-in,
  and an absent \<^verbatim>\<open>redeemedAt\<close> is \<^verbatim>\<open>null\<close>.
\<close>

definition I1 :: "user \<Rightarrow> bool" where
  "I1 u = (totalCheckIns u = int (length (checkIns u)))"

definition I2 :: "user \<Rightarrow> bool" where
  "I2 u = (int (length (couponHistory u)) = totalCheckIns u div 5)"

definition I3 :: "user \<Rightarrow> bool" where
  "I3 u = (couponsAvailable u = int (length (filter (\<lambda>c. redeemedAt c = None) (couponHistory u))))"

definition I4 :: "user \<Rightarrow> bool" where
  "I4 u = (lastCheckInAt u = (if checkIns u = [] then 0 else Max (set (map ts_ci (checkIns u)))))"

text \<open>A user as \<^verbatim>\<open>addUser\<close> and \<^verbatim>\<open>createSeedUsers\<close> create it: all ledger fields zeroed.\<close>

definition freshUser :: "user \<Rightarrow> bool" where
  "freshUser u = (lastCheckInAt u = 0 \<and> totalCheckIns u = 0 \<and> couponsAvailable u = 0
                  \<and> couponHistory u = [] \<and> checkIns u = [])"

text \<open>
  The invariant the operations maintain, which implies I1 to I4: the check-ins are in
  the order of their timestamps, which are positive, \<^verbatim>\<open>lastCheckInAt\<close> is that of the
  last one, and no \<^verbatim>\<open>redeemedAt\<close> is the falsy timestamp \<^verbatim>\<open>0\<close>.
\<close>

definition ledgerInv :: "user \<Rightarrow> bool" where
  "ledgerInv u =
     (I1 u \<and> I2 u \<and> I3 u
      \<and> lastCheckInAt u = (if checkIns u = [] then 0 else ts_ci (last (checkIns u)))
      \<and> sorted (map ts_ci (checkIns u))
      \<and> list_all (\<lambda>c. 0 < ts_ci c) (checkIns u)
      \<and> list_all (\<lambda>c. redeemedAt c \<noteq> Some 0) (couponHistory u))"

section \<open>Example data\<close>

text \<open>The state after \<^verbatim>\<open>createSeedUsers\<close>, with the first admin logged in.\<close>

definition seedUser :: "string \<Rightarrow> string \<Rightarrow> string \<Rightarrow> user" where
  "seedUser i e d =
     \<lparr>id_u = i, email = e, passwordHash = ''123456'', displayName = d, isAdmin = True,
      isActive = True, lastCheckInAt = 0, totalCheckIns = 0, couponsAvailable = 0,
      couponHistory = [], checkIns = []\<rparr>"

definition seedState :: state where
  "seedState =
     \<lparr>users = [seedUser ''u_1'' ''shawn@tjspecialty.com'' ''Shawn'',
               seedUser ''u_2'' ''jodi@tjspecialty.com'' ''Jodi'',
               seedUser ''u_3'' ''kevin@tjspecialty.com'' ''Kevin''],
      authUserId = Some ''u_1'', auditLog = [], idCounter = 3,
      lastActionRef = 0, lastScanValRef = [], lastScanTsRef = 0\<rparr>"

text \<open>Five weekly check-ins of the first admin with the right code.\<close>

definition fiveCheckIns :: "op list" where
  "fiveCheckIns =
     map (\<lambda>k. CheckIn ''u_1'' QR_CONSTANT (1700000000000 + int k * 604800000)) [0..<5]"

text \<open>
  Then: a check-in one hour after the fifth (too soon), a redemption, two more check-ins,
  and the deletion of the third check-in.
\<close>

definition exampleOps :: "op list" where
  "exampleOps =
     fiveCheckIns @
     [CheckIn ''u_1'' QR_CONSTANT 1702422800000,
      Redeem ''u_1'' 1710000000000,
      CheckIn ''u_1'' QR_CONSTANT 1711000000000,
      CheckIn ''u_1'' QR_CONSTANT 1720000000000,
      Delete ''u_1'' ''ci_8'' 1730000000000]"


definition fiveState :: state where
  "fiveState = run fiveCheckIns seedState"

text \<open>
  A page reload: users, session and audit log come back from \<^verbatim>\<open>localStorage\<close> (the log
  cut to 500 entries), the guard cells and \<^verbatim>\<open>_idCounter\<close> start again at their initial
  values.
\<close>

definition reloaded :: "state \<Rightarrow> state" where
  "reloaded s =
     s\<lparr>auditLog := take 500 (auditLog s), idCounter := 0,
       lastActionRef := 0, lastScanValRef := [], lastScanTsRef := 0\<rparr>"

text \<open>
  The state before the deletion at the end of \<open>exampleOps\<close> (seven check-ins, the one
  coupon redeemed), and the state after five check-ins and a redemption.
\<close>

definition sevenState :: state where
  "sevenState = run (take 9 exampleOps) seedState"

definition redeemedFiveState :: state where
  "redeemedFiveState = stateOf (redeemCoupon ''u_1'' 1710000000000 fiveState)"

section \<open>Frame and audit-log lemmas\<close>

lemma genId_frame [simp]:
  "users (snd (genId p s)) = users s"
  "authUserId (snd (genId p s)) = authUserId s"
  "auditLog (snd (genId p s)) = auditLog s"
  "lastActionRef (snd (genId p s)) = lastActionRef s"
  "lastScanValRef (snd (genId p s)) = lastScanValRef s"
  "lastScanTsRef (snd (genId p s)) = lastScanTsRef s"
  "idCounter (snd (genId p s)) = Suc (idCounter s)"
  by (simp_all add: genId_def)

lemma commitAudit_frame [simp]:
  "users (commitAudit ty m a now s) = users s"
  "authUserId (commitAudit ty m a now s) = authUserId s"
  "lastActionRef (commitAudit ty m a now s) = lastActionRef s"
  "lastScanValRef (commitAudit ty m a now s) = lastScanValRef s"
  "lastScanTsRef (commitAudit ty m a now s) = lastScanTsRef s"
  "idCounter (commitAudit ty m a now s) = Suc (idCounter s)"
  by (simp_all add: commitAudit_def genId_def)

lemma commitAudit_auditLog:
  "auditLog (commitAudit ty m a now s) =
     take 500 (\<lparr>id_log = fst (genId ''log'' s), type_log = ty, meta = m, ts_log = now, actorUserId = a\<rparr> # auditLog s)"
  by (simp add: commitAudit_def genId_def)

lemma auditExtends_refl: "auditExtends s s"
  by (simp add: auditExtends_def)

lemma take_500_absorb:
  "take 500 (n2 @ take 500 (n1 @ l)) = take 500 ((n2 @ n1) @ l)"
  by (simp add: take_add min_def)

lemma auditExtends_trans:
  assumes a: "auditExtends s s1" and b: "auditExtends s1 s2"
  shows "auditExtends s s2"
proof (cases "auditLog s1 = auditLog s")
  case True
  with b show ?thesis by (simp add: auditExtends_def)
next
  case False
  with a obtain n1 where n1: "n1 \<noteq> []" "auditLog s1 = take 500 (n1 @ auditLog s)"
    by (auto simp: auditExtends_def)
  show ?thesis
  proof (cases "auditLog s2 = auditLog s1")
    case True
    with n1 show ?thesis unfolding auditExtends_def by metis
  next
    case False
    with b obtain n2 where n2: "n2 \<noteq> []" "auditLog s2 = take 500 (n2 @ auditLog s1)"
      by (auto simp: auditExtends_def)
    have "auditLog s2 = take 500 ((n2 @ n1) @ auditLog s)"
      by (simp only: n2 n1 take_500_absorb)
    moreover have "n2 @ n1 \<noteq> []" using n1 by simp
    ultimately show ?thesis unfolding auditExtends_def by blast
  qed
qed

lemma auditExtends_genId: "auditExtends s0 s \<Longrightarrow> auditExtends s0 (snd (genId p s))"
  by (simp add: auditExtends_def)

lemma auditExtends_commitAudit: "auditExtends s0 s \<Longrightarrow> auditExtends s0 (commitAudit ty m a now s)"
proof (erule auditExtends_trans)
  show "auditExtends s (commitAudit ty m a now s)"
    unfolding auditExtends_def commitAudit_auditLog
    by (rule disjI2, rule exI[of _ "[\<lparr>id_log = fst (genId ''log'' s), type_log = ty, meta = m, ts_log = now, actorUserId = a\<rparr>]"]) simp
qed

lemma mapUsers_rel:
  assumes r: "\<And>s. R s s" and t: "\<And>a b c. R a b \<Longrightarrow> R b c \<Longrightarrow> R a c"
    and f: "\<And>u s. R s (resState (f u s))"
  shows "R s (resState (mapUsers f us s))"
proof (induction us arbitrary: s)
  case Nil
  show ?case by (simp add: r)
next
  case (Cons u us)
  show ?case
  proof (cases "f u s")
    case (Inl e)
    then show ?thesis using f[of s u] by (cases e) simp
  next
    case (Inr p)
    obtain u' s1 where p: "p = (u', s1)" by (cases p)
    have 1: "R s s1" using f[of s u] Inr p by simp
    have 2: "R s1 (resState (mapUsers f us s1))" by (rule Cons.IH)
    show ?thesis
    proof (cases "mapUsers f us s1")
      case (Inl e)
      then show ?thesis using Inr p t[OF 1 2] by (cases e) simp
    next
      case (Inr q)
      then show ?thesis using \<open>f u s = Inr p\<close> p t[OF 1 2] by (cases q) simp
    qed
  qed
qed

lemma setUsers_extends:
  assumes "\<And>u s. auditExtends s (resState (f u s))"
  shows "auditExtends s (stateOf (setUsers f s))"
proof (cases "mapUsers f (users s) s")
  case (Inl e)
  then show ?thesis
    by (cases e) (simp add: setUsers_def auditExtends_def)
next
  case (Inr r)
  have "auditExtends s (resState (mapUsers f (users s) s))"
    by (rule mapUsers_rel[where R = auditExtends, OF auditExtends_refl auditExtends_trans assms])
  with Inr show ?thesis
    by (cases r) (simp add: setUsers_def auditExtends_def)
qed

lemma performCheckIn_updater_extends:
  "auditExtends s (resState (performCheckIn_updater userId startTs u s))"
  by (simp add: performCheckIn_updater_def Let_def case_prod_beta auditExtends_refl
      auditExtends_genId auditExtends_commitAudit)

lemma redeemCoupon_updater_extends:
  "auditExtends s (snd (redeemCoupon_updater userId now u s))"
  by (simp add: redeemCoupon_updater_def Let_def auditExtends_refl auditExtends_commitAudit
      split: option.splits)

lemma rebuildLoop_eq:
  "rebuildLoop i t ex now rb s =
     (rb @ take (t - i) (drop i ex) @ fst (freshCoupons ((t - i) - (length ex - i)) now s),
      snd (freshCoupons ((t - i) - (length ex - i)) now s))"
proof (induction i t ex now rb s rule: rebuildLoop.induct)
  case (1 i t ex now rb s)
  show ?case
  proof (cases "i < t")
    case False
    then show ?thesis by (simp add: rebuildLoop.simps)
  next
    case lt: True
    show ?thesis
    proof (cases "i < length ex")
      case True
      have a: "take (t - i) (drop i ex) = ex ! i # take (t - (i + 1)) (drop (i + 1) ex)"
        using lt True by (metis Cons_nth_drop_Suc Suc_diff_Suc Suc_eq_plus1 take_Suc_Cons)
      have b: "(t - i) - (length ex - i) = (t - (i + 1)) - (length ex - (i + 1))"
        using lt True by arith
      show ?thesis
        using "1.IH"(1)[OF lt True] lt True
        by (subst rebuildLoop.simps) (simp add: a b del: take_Suc_Cons)
    next
      case False
      obtain cpId s1 where g: "genId ''cp'' s = (cpId, s1)" by (cases "genId ''cp'' s")
      have k: "t - i = Suc (t - Suc i)"
        using lt by arith
      have fr: "freshCoupons (t - i) now s =
          (\<lparr>id_cp = cpId, createdAt = now, redeemedAt = None\<rparr> # fst (freshCoupons (t - Suc i) now s1),
           snd (freshCoupons (t - Suc i) now s1))"
        by (subst k) (simp add: g split: prod.splits)
      show ?thesis
        using "1.IH"(2)[OF lt False g[symmetric] refl] lt False
        by (subst rebuildLoop.simps) (simp add: g fr)
    qed
  qed
qed

lemma resState_Inr [simp]: "resState (Inr p) = snd p"
  by (cases p) simp

lemma freshCoupons_frame [simp]:
  "users (snd (freshCoupons n now s)) = users s"
  "authUserId (snd (freshCoupons n now s)) = authUserId s"
  "auditLog (snd (freshCoupons n now s)) = auditLog s"
  "lastActionRef (snd (freshCoupons n now s)) = lastActionRef s"
  "lastScanValRef (snd (freshCoupons n now s)) = lastScanValRef s"
  "lastScanTsRef (snd (freshCoupons n now s)) = lastScanTsRef s"
  "idCounter (snd (freshCoupons n now s)) = idCounter s + n"
  by (induction n arbitrary: s; simp add: case_prod_beta)+

lemma deleteCheckIn_updater_extends:
  "auditExtends s (snd (deleteCheckIn_updater userId checkInId now u s))"
proof -
  have fr: "auditExtends s (snd (freshCoupons n now s))" for n
    by (simp add: auditExtends_def)
  show ?thesis
    by (simp add: deleteCheckIn_updater_def Let_def rebuildLoop_eq fr auditExtends_refl
        auditExtends_commitAudit split: option.splits)
qed

lemma step_extends: "auditExtends s (stateOf (step x s))"
proof (cases x)
  case (CheckIn userId scanValue now)
  have "auditExtends (s\<lparr>lastActionRef := now, lastScanValRef := scanValue, lastScanTsRef := now\<rparr>)
          (stateOf (setUsers (performCheckIn_updater userId now)
             (s\<lparr>lastActionRef := now, lastScanValRef := scanValue, lastScanTsRef := now\<rparr>)))"
    by (rule setUsers_extends) (rule performCheckIn_updater_extends)
  then show ?thesis
    using CheckIn by (simp add: performCheckIn_def auditExtends_def)
next
  case (Redeem userId now)
  have "auditExtends s (stateOf (updateUser userId (redeemCoupon_updater userId now) s))"
    unfolding updateUser_def
    by (rule setUsers_extends) (simp add: redeemCoupon_updater_extends auditExtends_refl)
  then show ?thesis using Redeem by (simp add: redeemCoupon_def)
next
  case (Delete userId checkInId now)
  have "auditExtends s (stateOf (deleteCheckIn userId checkInId now s))"
    unfolding deleteCheckIn_def
    by (rule setUsers_extends) (simp add: deleteCheckIn_updater_extends auditExtends_refl)
  then show ?thesis using Delete by simp
qed

section \<open>The audit log is bounded\<close>

text \<open>
  C9. \<^verbatim>\<open>commitAudit\<close>, the only writer of the audit log, leaves the new entry in front
  of the old log cut to 500 entries: at most 500 entries are retained, the retained old
  entries are the 499 most recent ones, unchanged and in their order, and the oldest are
  the ones evicted. Every ledger operation leaves the log as it was or as its new
  entries in front of the old log, cut to the 500 most recent.
\<close>

theorem audit_log_bounded:
  "auditLog (commitAudit ty m a now s) =
     take 500 (\<lparr>id_log = fst (genId ''log'' s), type_log = ty, meta = m, ts_log = now,
                actorUserId = a\<rparr> # auditLog s)
   \<and> length (auditLog (commitAudit ty m a now s)) \<le> 500
   \<and> tl (auditLog (commitAudit ty m a now s)) = take 499 (auditLog s)
   \<and> auditExtends s0 (stateOf (step x s0))"
  by (simp add: commitAudit_auditLog step_extends)

section \<open>The operations preserve the ledger invariant\<close>

lemma findIndex_Some:
  "findIndex p xs = Some i \<Longrightarrow> i < length xs \<and> p (xs ! i) \<and> (\<forall>j<i. \<not> p (xs ! j))"
proof (induction xs arbitrary: i)
  case Nil
  then show ?case by simp
next
  case (Cons x xs)
  show ?case
  proof (cases "p x")
    case True
    with Cons.prems show ?thesis by simp
  next
    case False
    with Cons.prems obtain k where k: "findIndex p xs = Some k" "i = Suc k" by auto
    from Cons.IH[OF k(1)] False k(2) show ?thesis
      by (auto simp: nth_Cons split: nat.splits)
  qed
qed

lemma findIndex_None: "(findIndex p xs = None) = (\<forall>x\<in>set xs. \<not> p x)"
  by (induction xs) auto

lemma filter_update_length:
  "i < length xs \<Longrightarrow> p (xs ! i) \<Longrightarrow> \<not> p y \<Longrightarrow>
     Suc (length (filter p (xs[i := y]))) = length (filter p xs)"
proof (induction xs arbitrary: i)
  case Nil
  then show ?case by simp
next
  case (Cons x xs)
  then show ?case by (cases i) auto
qed

lemma sorted_last_Max:
  "sorted xs \<Longrightarrow> xs \<noteq> [] \<Longrightarrow> Max (set xs) = last (xs :: int list)"
proof (induction xs)
  case Nil
  then show ?case by simp
next
  case (Cons x xs)
  show ?case
  proof (cases "xs = []")
    case True
    then show ?thesis by simp
  next
    case False
    with Cons have "Max (set xs) = last xs" by simp
    moreover have "x \<le> last xs" using Cons.prems(1) False by auto
    ultimately show ?thesis using False by (simp add: max_def)
  qed
qed

lemma ledgerInv_I4:
  assumes "ledgerInv u"
  shows "I4 u"
proof (cases "checkIns u = []")
  case True
  then show ?thesis using assms by (simp add: ledgerInv_def I4_def)
next
  case False
  have "Max (set (map ts_ci (checkIns u))) = last (map ts_ci (checkIns u))"
    using assms False by (intro sorted_last_Max) (simp_all add: ledgerInv_def)
  then show ?thesis
    using assms False by (simp add: ledgerInv_def I4_def last_map del: set_map)
qed

lemma freshUser_ledgerInv: "freshUser u \<Longrightarrow> ledgerInv u"
  by (simp add: freshUser_def ledgerInv_def I1_def I2_def I3_def)

lemma length_freshCoupons [simp]: "length (fst (freshCoupons n now s)) = n"
  by (induction n arbitrary: s) (simp_all add: case_prod_beta)

lemma freshCoupons_unredeemed:
  "c \<in> set (fst (freshCoupons n now s)) \<Longrightarrow> redeemedAt c = None \<and> createdAt c = now"
  by (induction n arbitrary: s) (auto simp: case_prod_beta)

lemma performCheckIn_updater_inv:
  assumes inv: "ledgerInv u" and pos: "0 < startTs"
    and res: "performCheckIn_updater userId startTs u s = Inr (u', s')"
  shows "ledgerInv u'"
proof (cases "id_u u = userId")
  case False
  with res inv show ?thesis by (simp add: performCheckIn_updater_def)
next
  case True
  from res True have g1: "\<not> (lastCheckInAt u \<noteq> 0 \<and> startTs - lastCheckInAt u < 0)"
    and g2: "\<not> (lastCheckInAt u \<noteq> 0 \<and> startTs - lastCheckInAt u < CHECKIN_INTERVAL_MS)"
    by (auto simp: performCheckIn_updater_def split: if_splits)
  have le: "\<forall>c\<in>set (checkIns u). ts_ci c \<le> startTs"
  proof (cases "checkIns u = []")
    case True
    then show ?thesis by simp
  next
    case False
    with inv have l: "lastCheckInAt u = last (map ts_ci (checkIns u))"
      and so: "sorted (map ts_ci (checkIns u))"
      and po: "list_all (\<lambda>c. 0 < ts_ci c) (checkIns u)"
      by (simp_all add: ledgerInv_def last_map)
    from po False have "0 < ts_ci (last (checkIns u))"
      by (simp add: list_all_iff)
    with l False have nz: "lastCheckInAt u \<noteq> 0" by (simp add: last_map)
    with g2 have "lastCheckInAt u \<le> startTs" by (simp add: CHECKIN_INTERVAL_MS_def CHECKIN_INTERVAL_HOURS_def)
    moreover have "\<forall>x\<in>set (map ts_ci (checkIns u)). x \<le> last (map ts_ci (checkIns u))"
      using so False sorted_last_Max[OF so] by (metis List.finite_set Max_ge map_is_Nil_conv)
    ultimately show ?thesis using l by fastforce
  qed
  show ?thesis
  proof (cases "(totalCheckIns u + 1) mod COUPON_MODULO = 0")
    case c: True
    from res True g1 g2 c have u': "u' = u\<lparr>checkIns := checkIns u @ [\<lparr>id_ci = fst (genId ''ci'' s), ts_ci = startTs\<rparr>],
        totalCheckIns := totalCheckIns u + 1, couponsAvailable := couponsAvailable u + 1,
        couponHistory := couponHistory u @ [\<lparr>id_cp = fst (genId ''cp'' (snd (genId ''ci'' s))), createdAt = startTs, redeemedAt = None\<rparr>],
        lastCheckInAt := startTs\<rparr>"
      by (auto simp: performCheckIn_updater_def Let_def case_prod_beta split: if_splits)
    from c have "(totalCheckIns u + 1) div 5 = totalCheckIns u div 5 + 1"
      unfolding COUPON_MODULO_def by presburger
    with inv le pos show ?thesis
      by (simp add: u' ledgerInv_def I1_def I2_def I3_def sorted_append)
  next
    case c: False
    from res True g1 g2 c have u': "u' = u\<lparr>checkIns := checkIns u @ [\<lparr>id_ci = fst (genId ''ci'' s), ts_ci = startTs\<rparr>],
        totalCheckIns := totalCheckIns u + 1, couponsAvailable := couponsAvailable u,
        couponHistory := couponHistory u,
        lastCheckInAt := startTs\<rparr>"
      by (auto simp: performCheckIn_updater_def Let_def case_prod_beta split: if_splits)
    from c have "(totalCheckIns u + 1) div 5 = totalCheckIns u div 5"
      unfolding COUPON_MODULO_def by presburger
    with inv le pos show ?thesis
      by (simp add: u' ledgerInv_def I1_def I2_def I3_def sorted_append)
  qed
qed

lemma redeemCoupon_updater_inv:
  assumes inv: "ledgerInv u" and nz: "now \<noteq> 0"
  shows "ledgerInv (fst (redeemCoupon_updater userId now u s))"
proof (cases "couponsAvailable u \<le> 0")
  case True
  with inv show ?thesis by (simp add: redeemCoupon_updater_def)
next
  case pos: False
  show ?thesis
  proof (cases "findIndex (\<lambda>c. \<not> truthy (redeemedAt c)) (couponHistory u)")
    case None
    with inv pos show ?thesis by (simp add: redeemCoupon_updater_def)
  next
    case (Some i)
    from findIndex_Some[OF Some] have i: "i < length (couponHistory u)"
      and f: "\<not> truthy (redeemedAt (couponHistory u ! i))" by simp_all
    from inv have n0: "list_all (\<lambda>c. redeemedAt c \<noteq> Some 0) (couponHistory u)"
      by (simp add: ledgerInv_def)
    with i have "redeemedAt (couponHistory u ! i) \<noteq> Some 0"
      by (simp add: list_all_length)
    with f have none: "redeemedAt (couponHistory u ! i) = None"
      by (cases "redeemedAt (couponHistory u ! i)") simp_all
    let ?y = "(couponHistory u ! i)\<lparr>redeemedAt := Some now\<rparr>"
    have cnt: "Suc (length (filter (\<lambda>c. redeemedAt c = None) ((couponHistory u)[i := ?y])))
               = length (filter (\<lambda>c. redeemedAt c = None) (couponHistory u))"
      by (rule filter_update_length) (simp_all add: i none)
    have n0': "list_all (\<lambda>c. redeemedAt c \<noteq> Some 0) ((couponHistory u)[i := ?y])"
      using n0 nz by (auto simp: list_all_iff dest!: set_update_subset_insert[THEN subsetD])
    have u': "fst (redeemCoupon_updater userId now u s) =
        u\<lparr>couponsAvailable := couponsAvailable u - 1, couponHistory := (couponHistory u)[i := ?y]\<rparr>"
      using pos Some by (simp add: redeemCoupon_updater_def Let_def)
    from inv cnt n0' show ?thesis
      unfolding u' ledgerInv_def I1_def I2_def I3_def by simp
  qed
qed

lemma deleteCheckIn_updater_inv:
  assumes inv: "ledgerInv u"
  shows "ledgerInv (fst (deleteCheckIn_updater userId checkInId now u s))"
proof (cases "findIndex (\<lambda>c. id_ci c = checkInId) (checkIns u)")
  case None
  with inv show ?thesis by (simp add: deleteCheckIn_updater_def)
next
  case (Some idx)
  let ?new = "filter (\<lambda>c. id_ci c \<noteq> checkInId) (checkIns u)"
  let ?t = "length ?new div nat COUPON_MODULO"
  let ?ex = "sort_key createdAt (couponHistory u)"
  let ?rb = "take ?t ?ex @ fst (freshCoupons (?t - length ?ex) now s)"
  have u': "fst (deleteCheckIn_updater userId checkInId now u s) =
      u\<lparr>checkIns := ?new, totalCheckIns := int (length ?new),
        couponsAvailable := int (length (filter (\<lambda>c. \<not> truthy (redeemedAt c)) ?rb)),
        couponHistory := ?rb,
        lastCheckInAt := (if ?new \<noteq> [] then ts_ci (last ?new) else 0)\<rparr>"
    using Some by (simp add: deleteCheckIn_updater_def Let_def rebuildLoop_eq)
  from inv have n0: "\<forall>c\<in>set (couponHistory u). redeemedAt c \<noteq> Some 0"
    by (simp add: ledgerInv_def list_all_iff)
  have rb0: "\<forall>c\<in>set ?rb. redeemedAt c \<noteq> Some 0"
    using n0 by (auto dest: in_set_takeD freshCoupons_unredeemed)
  have eqv: "filter (\<lambda>c. \<not> truthy (redeemedAt c)) ?rb = filter (\<lambda>c. redeemedAt c = None) ?rb"
  proof (rule filter_cong[OF refl])
    fix c assume "c \<in> set ?rb"
    with rb0 have "redeemedAt c \<noteq> Some 0" by blast
    then show "(\<not> truthy (redeemedAt c)) = (redeemedAt c = None)"
      by (cases "redeemedAt c") simp_all
  qed
  have len: "length ?rb = ?t" by simp
  have so: "sorted (map ts_ci ?new)"
    using inv by (simp add: ledgerInv_def sorted_filter)
  have po: "list_all (\<lambda>c. 0 < ts_ci c) ?new"
    using inv by (simp add: ledgerInv_def list_all_iff)
  have i2: "int ?t = int (length ?new) div 5"
    by (simp add: COUPON_MODULO_def zdiv_int)
  show ?thesis
    unfolding u' ledgerInv_def I1_def I2_def I3_def
    using so po rb0 i2 len eqv by (simp add: list_all_iff del: set_append)
qed

lemma mapUsers_preserves:
  assumes f: "\<And>u s u' s'. P u \<Longrightarrow> f u s = Inr (u', s') \<Longrightarrow> P u'"
    and all: "list_all P us"
    and res: "mapUsers f us s = Inr (us', s')"
  shows "list_all P us'"
  using all res
proof (induction us arbitrary: s us')
  case Nil
  then show ?case by simp
next
  case (Cons u us)
  from Cons.prems(2) obtain u1 s1 us1 where a: "f u s = Inr (u1, s1)"
    and b: "mapUsers f us s1 = Inr (us1, s')" and c: "us' = u1 # us1"
    by (auto split: sum.splits prod.splits)
  from Cons.prems(1) have "P u" "list_all P us" by simp_all
  with f[OF _ a] Cons.IH[OF _ b] c show ?case by simp
qed

lemma mapUsers_users:
  assumes "\<And>u s. users (resState (f u s)) = users s"
  shows "users (resState (mapUsers f us s)) = users s"
  by (rule mapUsers_rel[where R = "\<lambda>a b. users b = users a"]) (simp_all add: assms)

lemma setUsers_preserves:
  assumes f: "\<And>u s u' s'. P u \<Longrightarrow> f u s = Inr (u', s') \<Longrightarrow> P u'"
    and fr: "\<And>u s. users (resState (f u s)) = users s"
    and all: "list_all P (users s)"
  shows "list_all P (users (stateOf (setUsers f s)))"
proof (cases "mapUsers f (users s) s")
  case (Inl e)
  with all show ?thesis by (cases e) (simp add: setUsers_def)
next
  case (Inr r)
  obtain us' s1 where r: "r = (us', s1)" by (cases r)
  from mapUsers_preserves[of P f, OF f all Inr[unfolded r]] Inr r show ?thesis
    by (simp add: setUsers_def)
qed

lemma performCheckIn_updater_users [simp]:
  "users (resState (performCheckIn_updater userId startTs u s)) = users s"
  by (simp add: performCheckIn_updater_def Let_def case_prod_beta)

lemma redeemCoupon_updater_users [simp]:
  "users (snd (redeemCoupon_updater userId now u s)) = users s"
  by (simp add: redeemCoupon_updater_def Let_def split: option.splits)

lemma deleteCheckIn_updater_users [simp]:
  "users (snd (deleteCheckIn_updater userId checkInId now u s)) = users s"
  by (simp add: deleteCheckIn_updater_def Let_def rebuildLoop_eq split: option.splits)

lemma step_ledgerInv:
  assumes all: "list_all ledgerInv (users s)" and pos: "0 < opTime x"
  shows "list_all ledgerInv (users (stateOf (step x s)))"
proof (cases x)
  case (CheckIn userId scanValue now)
  let ?s1 = "s\<lparr>lastActionRef := now, lastScanValRef := scanValue, lastScanTsRef := now\<rparr>"
  have "list_all ledgerInv (users (stateOf (setUsers (performCheckIn_updater userId now) ?s1)))"
  proof (rule setUsers_preserves)
    fix u s u' s' assume "ledgerInv u" "performCheckIn_updater userId now u s = Inr (u', s')"
    then show "ledgerInv u'" using pos CheckIn by (auto intro: performCheckIn_updater_inv)
  qed (simp_all add: all)
  with all CheckIn show ?thesis by (simp add: performCheckIn_def)
next
  case (Redeem userId now)
  have "list_all ledgerInv (users (stateOf (updateUser userId (redeemCoupon_updater userId now) s)))"
    unfolding updateUser_def
  proof (rule setUsers_preserves)
    fix u s u' s'
    assume "ledgerInv u" "Inr (if id_u u = userId then redeemCoupon_updater userId now u s else (u, s)) = Inr (u', s')"
    then show "ledgerInv u'"
      using pos Redeem redeemCoupon_updater_inv[of u now userId s]
      by (auto split: if_splits)
  qed (simp_all add: all)
  with Redeem show ?thesis by (simp add: redeemCoupon_def)
next
  case (Delete userId checkInId now)
  have "list_all ledgerInv (users (stateOf (deleteCheckIn userId checkInId now s)))"
    unfolding deleteCheckIn_def
  proof (rule setUsers_preserves)
    fix u s u' s'
    assume "ledgerInv u" "Inr (if id_u u \<noteq> userId then (u, s) else deleteCheckIn_updater userId checkInId now u s) = Inr (u', s')"
    then show "ledgerInv u'"
      using deleteCheckIn_updater_inv[of u userId checkInId now s]
      by (auto split: if_splits)
  qed (simp_all add: all)
  with Delete show ?thesis by simp
qed

lemma run_ledgerInv:
  "list_all ledgerInv (users s) \<Longrightarrow> list_all (\<lambda>x. 0 < opTime x) ops \<Longrightarrow>
     list_all ledgerInv (users (run ops s))"
proof (induction ops arbitrary: s)
  case Nil
  then show ?case by simp
next
  case (Cons x xs)
  then show ?case by (simp add: step_ledgerInv)
qed

section \<open>Invariant preservation\<close>

text \<open>
  C1. Starting from a state whose users are all freshly created (ledger fields zeroed),
  after every operation of any sequence of \<^verbatim>\<open>performCheckIn\<close>, \<^verbatim>\<open>redeemCoupon\<close> and
  \<^verbatim>\<open>deleteCheckIn\<close> calls, succeeding or not, every user record satisfies I1, I2, I3 and
  I4. The clock readings are positive, as \<^verbatim>\<open>Date.now()\<close> is.
\<close>

theorem ledger_invariants_preserved:
  assumes fresh: "list_all freshUser (users s0)"
    and clock: "list_all (\<lambda>x. 0 < opTime x) ops"
  shows "list_all (\<lambda>u. I1 u \<and> I2 u \<and> I3 u \<and> I4 u) (users (run (take k ops) s0))"
proof -
  from fresh have "list_all ledgerInv (users s0)"
    by (simp add: list_all_iff freshUser_ledgerInv)
  moreover from clock have "list_all (\<lambda>x. 0 < opTime x) (take k ops)"
    by (auto simp: list_all_iff dest: in_set_takeD)
  ultimately have "list_all ledgerInv (users (run (take k ops) s0))"
    by (rule run_ledgerInv)
  then show ?thesis
    by (auto simp: list_all_iff ledgerInv_I4) (simp_all add: ledgerInv_def)
qed

theorem ledger_invariants_preserved_witness:
  "list_all freshUser (users seedState)
   \<and> list_all (\<lambda>x. 0 < opTime x) exampleOps
   \<and> list_all (\<lambda>u. I1 u \<and> I2 u \<and> I3 u \<and> I4 u) (users (run (take 10 exampleOps) seedState))
   \<and> map totalCheckIns (users (run (take 10 exampleOps) seedState)) = [6, 0, 0]"
proof -
  have f: "list_all freshUser (users seedState)"
    by (simp add: seedState_def seedUser_def freshUser_def)
  have c: "list_all (\<lambda>x. 0 < opTime x) exampleOps"
    by (simp add: exampleOps_def fiveCheckIns_def upt_rec)
  have t: "map totalCheckIns (users (run (take 10 exampleOps) seedState)) = [6, 0, 0]"
    by code_simp
  from f c t ledger_invariants_preserved[OF f c, of 10] show ?thesis by simp
qed

section \<open>One user, one updater call\<close>

lemma mapUsers_skip:
  assumes "\<And>v s. v \<in> set us \<Longrightarrow> f v s = Inr (v, s)"
  shows "mapUsers f us s = Inr (us, s)"
  using assms by (induction us arbitrary: s) simp_all

lemma mapUsers_single:
  assumes skip: "\<And>v s. id_u v \<noteq> uid \<Longrightarrow> f v s = Inr (v, s)"
    and single: "filter (\<lambda>v. id_u v = uid) us = [u]"
  shows "mapUsers f us s =
     (case f u s of
        Inl e \<Rightarrow> Inl e
      | Inr (u', s') \<Rightarrow> Inr (map (\<lambda>v. if id_u v = uid then u' else v) us, s'))"
  using single
proof (induction us arbitrary: s)
  case Nil
  then show ?case by simp
next
  case (Cons v vs)
  show ?case
  proof (cases "id_u v = uid")
    case True
    with Cons.prems have v: "v = u" and none: "filter (\<lambda>v. id_u v = uid) vs = []" by simp_all
    from none have no: "\<forall>w\<in>set vs. id_u w \<noteq> uid" by (simp add: filter_empty_conv)
    then have rest: "mapUsers f vs s1 = Inr (vs, s1)" for s1
      by (intro mapUsers_skip skip) simp
    have same: "map (\<lambda>w. if id_u w = uid then u' else w) vs = vs" for u'
      using no by (simp add: map_idI)
    show ?thesis
      using True v by (simp add: rest same split: sum.splits prod.splits)
  next
    case False
    with Cons.prems have "filter (\<lambda>v. id_u v = uid) vs = [u]" by simp
    from Cons.IH[OF this] False skip[OF False] show ?thesis
      by (simp split: sum.splits prod.splits)
  qed
qed

lemma setUsers_single:
  assumes skip: "\<And>v s. id_u v \<noteq> uid \<Longrightarrow> f v s = Inr (v, s)"
    and single: "filter (\<lambda>v. id_u v = uid) (users s) = [u]"
  shows "setUsers f s =
     (case f u s of
        Inl (e, s') \<Rightarrow> Crashed e (s\<lparr>idCounter := idCounter s'\<rparr>)
      | Inr (u', s') \<Rightarrow> Done (s'\<lparr>users := map (\<lambda>v. if id_u v = uid then u' else v) (users s)\<rparr>))"
proof -
  have m: "mapUsers f (users s) s =
     (case f u s of
        Inl e \<Rightarrow> Inl e
      | Inr (u', s') \<Rightarrow> Inr (map (\<lambda>v. if id_u v = uid then u' else v) (users s), s'))"
    using skip single by (rule mapUsers_single)
  show ?thesis
    unfolding setUsers_def m by (simp split: sum.splits prod.splits)
qed

lemma mapUsers_first_throw:
  assumes skip: "\<And>v s. id_u v \<noteq> uid \<Longrightarrow> f v s = Inr (v, s)"
    and fnd: "find (\<lambda>v. id_u v = uid) us = Some u"
    and thr: "f u s = Inl e"
  shows "mapUsers f us s = Inl e"
  using fnd
proof (induction us)
  case Nil
  then show ?case by simp
next
  case (Cons v vs)
  then show ?case using thr skip by (cases "id_u v = uid") simp_all
qed

lemma mapUsers_first_done:
  assumes skip: "\<And>v s. id_u v \<noteq> uid \<Longrightarrow> f v s = Inr (v, s)"
    and idp: "\<And>v s v' s'. f v s = Inr (v', s') \<Longrightarrow> id_u v' = id_u v"
    and fnd: "find (\<lambda>v. id_u v = uid) us = Some u"
    and res: "mapUsers f us s = Inr (us', s')"
  shows "\<exists>u' s1. f u s = Inr (u', s1) \<and> find (\<lambda>v. id_u v = uid) us' = Some u'"
  using fnd res
proof (induction us arbitrary: us')
  case Nil
  then show ?case by simp
next
  case (Cons v vs)
  show ?case
  proof (cases "id_u v = uid")
    case True
    with Cons.prems(1) have v: "v = u" by simp
    from Cons.prems(2) obtain u1 s1 us1 where a: "f v s = Inr (u1, s1)" and c: "us' = u1 # us1"
      by (auto split: sum.splits prod.splits)
    from idp[OF a] True have "id_u u1 = uid" by simp
    with a c v show ?thesis by auto
  next
    case False
    with Cons.prems(1) have f1: "find (\<lambda>v. id_u v = uid) vs = Some u" by simp
    from Cons.prems(2) skip[OF False] obtain us1 where b: "mapUsers f vs s = Inr (us1, s')"
      and c: "us' = v # us1"
      by (auto split: sum.splits prod.splits)
    from Cons.IH[OF f1 b] c False show ?thesis by auto
  qed
qed

lemma single_findUser:
  "filter (\<lambda>v. id_u v = uid) (users s) = [u] \<Longrightarrow> findUser uid s = Some u"
proof -
  have "filter p us = [u] \<Longrightarrow> find p us = Some u" for p and us :: "user list"
  proof (induction us)
    case Nil
    then show ?case by simp
  next
    case (Cons v vs)
    then show ?case by (cases "p v") simp_all
  qed
  then show "filter (\<lambda>v. id_u v = uid) (users s) = [u] \<Longrightarrow> findUser uid s = Some u"
    by (simp add: findUser_def)
qed

lemma set_state_users_same [simp]: "s\<lparr>users := users s\<rparr> = s"
  by simp

lemma deleteCheckIn_updater_absent:
  "checkInId \<notin> id_ci ` set (checkIns u) \<Longrightarrow> deleteCheckIn_updater userId checkInId now u s = (u, s)"
proof -
  assume "checkInId \<notin> id_ci ` set (checkIns u)"
  then have "findIndex (\<lambda>c. id_ci c = checkInId) (checkIns u) = None"
    by (auto simp: findIndex_None)
  then show ?thesis by (simp add: deleteCheckIn_updater_def)
qed

section \<open>Deleting a check-in that does not exist\<close>

text \<open>
  C7 (amended). \<^verbatim>\<open>deleteCheckIn(userId, checkInId)\<close> with a \<^verbatim>\<open>checkInId\<close> that occurs in
  the \<^verbatim>\<open>checkIns\<close> of no user with that id raises no error: it completes and leaves the
  whole state (every user record, the audit log, the id counter) unchanged.
\<close>

theorem deleteCheckIn_unknown_id_is_noop:
  assumes "list_all (\<lambda>u. id_u u = userId \<longrightarrow> checkInId \<notin> id_ci ` set (checkIns u)) (users s)"
  shows "deleteCheckIn userId checkInId now s = Done s"
proof -
  let ?f = "(\<lambda>u s'. Inr (if id_u u \<noteq> userId then (u, s') else deleteCheckIn_updater userId checkInId now u s'))
      :: user \<Rightarrow> state \<Rightarrow> (error \<times> state) + (user \<times> state)"
  have "mapUsers ?f (users s) s = Inr (users s, s)"
  proof (rule mapUsers_skip)
    fix v s' assume "v \<in> set (users s)"
    with assms have "id_u v = userId \<longrightarrow> checkInId \<notin> id_ci ` set (checkIns v)"
      by (simp add: list_all_iff)
    then show "?f v s' = Inr (v, s')"
      by (simp add: deleteCheckIn_updater_absent)
  qed
  then show ?thesis
    by (simp add: deleteCheckIn_def setUsers_def)
qed

theorem deleteCheckIn_unknown_id_is_noop_witness:
  "list_all (\<lambda>u. id_u u = ''u_1'' \<longrightarrow> ''ci_zz'' \<notin> id_ci ` set (checkIns u)) (users (run fiveCheckIns seedState))
   \<and> deleteCheckIn ''u_1'' ''ci_zz'' 1730000000000 (run fiveCheckIns seedState) = Done (run fiveCheckIns seedState)"
proof -
  have h: "list_all (\<lambda>u. id_u u = ''u_1'' \<longrightarrow> ''ci_zz'' \<notin> id_ci ` set (checkIns u)) (users (run fiveCheckIns seedState))"
    by code_simp
  from h deleteCheckIn_unknown_id_is_noop[OF h] show ?thesis by simp
qed

theorem deleteCheckIn_not_found_counterexample:
  "''ci_zz'' \<notin> id_ci ` set (checkIns (hd (users (run fiveCheckIns seedState))))
   \<and> thrown (deleteCheckIn ''u_1'' ''ci_zz'' 1730000000000 (run fiveCheckIns seedState)) = None"
  by code_simp

lemma mapUsers_no_throw:
  assumes "\<And>u s. \<exists>r. f u s = Inr r"
  shows "\<exists>r. mapUsers f us s = Inr r"
proof (induction us arbitrary: s)
  case Nil
  show ?case by simp
next
  case (Cons u us)
  from assms obtain u' s1 where a: "f u s = Inr (u', s1)" by (metis surj_pair)
  from Cons.IH obtain us' s2 where b: "mapUsers f us s1 = Inr (us', s2)" by (metis surj_pair)
  show ?case by (simp add: a b)
qed

lemma updateUser_never_throws: "thrown (updateUser i updater s) = None"
proof -
  obtain r where "mapUsers (\<lambda>u s'. Inr (if id_u u = i then updater u s' else (u, s'))) (users s) s = Inr r"
    using mapUsers_no_throw[of "\<lambda>u s'. Inr (if id_u u = i then updater u s' else (u, s'))"] by blast
  then show ?thesis by (cases r) (simp add: updateUser_def setUsers_def)
qed

lemma redeemCoupon_updater_noop:
  "couponsAvailable u \<le> 0 \<or> list_all (\<lambda>c. truthy (redeemedAt c)) (couponHistory u) \<Longrightarrow>
     redeemCoupon_updater userId now u s = (u, s)"
proof -
  assume a: "couponsAvailable u \<le> 0 \<or> list_all (\<lambda>c. truthy (redeemedAt c)) (couponHistory u)"
  show ?thesis
  proof (cases "couponsAvailable u \<le> 0")
    case True
    then show ?thesis by (simp add: redeemCoupon_updater_def)
  next
    case False
    with a have "findIndex (\<lambda>c. \<not> truthy (redeemedAt c)) (couponHistory u) = None"
      by (simp add: findIndex_None list_all_iff)
    then show ?thesis by (simp add: redeemCoupon_updater_def)
  qed
qed

lemma redeemCoupon_updater_redeems:
  assumes "0 < couponsAvailable u"
    and "findIndex (\<lambda>c. \<not> truthy (redeemedAt c)) (couponHistory u) = Some i"
  shows "redeemCoupon_updater userId now u s =
     (u\<lparr>couponsAvailable := couponsAvailable u - 1,
        couponHistory := (couponHistory u)[i := (couponHistory u ! i)\<lparr>redeemedAt := Some now\<rparr>]\<rparr>,
      commitAudit ''coupon.redeem''
        [(''userId'', Str userId), (''couponId'', Str (id_cp (couponHistory u ! i)))]
        (authUserId s) now s)"
proof -
  from findIndex_Some[OF assms(2)] have "i < length (couponHistory u)" by simp
  with assms show ?thesis by (simp add: redeemCoupon_updater_def Let_def)
qed

lemma sorted_first_least:
  assumes so: "sorted (map createdAt cs)" and i: "i < length cs"
    and first: "\<forall>j<i. truthy (redeemedAt (cs ! j))"
    and c: "c \<in> set cs" and un: "\<not> truthy (redeemedAt c)"
  shows "createdAt (cs ! i) \<le> createdAt c"
proof -
  from c obtain k where k: "k < length cs" "cs ! k = c" by (auto simp: in_set_conv_nth)
  with first un have "i \<le> k" by (metis not_le_imp_less)
  with so k i have "map createdAt cs ! i \<le> map createdAt cs ! k"
    by (simp add: sorted_iff_nth_mono del: nth_map)
  with k i show ?thesis by simp
qed

section \<open>Coupon redemption\<close>

text \<open>
  C4 (amended). \<^verbatim>\<open>redeemCoupon(userId)\<close> never throws. When every user with that id has
  \<^verbatim>\<open>couponsAvailable \<le> 0\<close> or no coupon with a falsy \<^verbatim>\<open>redeemedAt\<close>, it completes and
  leaves the whole state unchanged, with no audit entry. Otherwise, for the one user
  \<open>u\<close> with that id, it sets the \<^verbatim>\<open>redeemedAt\<close> of the first coupon of \<^verbatim>\<open>couponHistory\<close>
  with a falsy \<^verbatim>\<open>redeemedAt\<close> to the current time, decrements \<^verbatim>\<open>couponsAvailable\<close>,
  writes one \<^verbatim>\<open>coupon.redeem\<close> audit entry and changes nothing else; that coupon is
  the earliest-created unredeemed one when the history is in creation order.
\<close>

theorem redeemCoupon_behaviour:
  "thrown (redeemCoupon userId now s) = None
   \<and> (list_all (\<lambda>v. id_u v = userId \<longrightarrow>
          couponsAvailable v \<le> 0 \<or> list_all (\<lambda>c. truthy (redeemedAt c)) (couponHistory v)) (users s)
        \<longrightarrow> redeemCoupon userId now s = Done s)
   \<and> (filter (\<lambda>v. id_u v = userId) (users s) = [u] \<and> 0 < couponsAvailable u
        \<and> findIndex (\<lambda>c. \<not> truthy (redeemedAt c)) (couponHistory u) = Some i
        \<longrightarrow> redeemCoupon userId now s =
              Done ((commitAudit ''coupon.redeem''
                       [(''userId'', Str userId), (''couponId'', Str (id_cp (couponHistory u ! i)))]
                       (authUserId s) now s)
                    \<lparr>users := map (\<lambda>v. if id_u v = userId
                         then u\<lparr>couponsAvailable := couponsAvailable u - 1,
                                couponHistory := (couponHistory u)
                                  [i := (couponHistory u ! i)\<lparr>redeemedAt := Some now\<rparr>]\<rparr>
                         else v) (users s)\<rparr>)
            \<and> i < length (couponHistory u)
            \<and> \<not> truthy (redeemedAt (couponHistory u ! i))
            \<and> (\<forall>j<i. truthy (redeemedAt (couponHistory u ! j)))
            \<and> (sorted (map createdAt (couponHistory u)) \<longrightarrow>
                 (\<forall>c\<in>set (couponHistory u). \<not> truthy (redeemedAt c) \<longrightarrow>
                    createdAt (couponHistory u ! i) \<le> createdAt c)))"
proof (intro conjI impI)
  show "thrown (redeemCoupon userId now s) = None"
    by (simp add: redeemCoupon_def updateUser_never_throws)
next
  assume a: "list_all (\<lambda>v. id_u v = userId \<longrightarrow>
          couponsAvailable v \<le> 0 \<or> list_all (\<lambda>c. truthy (redeemedAt c)) (couponHistory v)) (users s)"
  let ?f = "(\<lambda>u s'. Inr (if id_u u = userId then redeemCoupon_updater userId now u s' else (u, s')))
      :: user \<Rightarrow> state \<Rightarrow> (error \<times> state) + (user \<times> state)"
  have "mapUsers ?f (users s) s = Inr (users s, s)"
  proof (rule mapUsers_skip)
    fix v s' assume "v \<in> set (users s)"
    with a have "id_u v = userId \<longrightarrow>
          couponsAvailable v \<le> 0 \<or> list_all (\<lambda>c. truthy (redeemedAt c)) (couponHistory v)"
      by (simp add: list_all_iff)
    then show "?f v s' = Inr (v, s')"
      by (auto simp: redeemCoupon_updater_noop)
  qed
  then show "redeemCoupon userId now s = Done s"
    by (simp add: redeemCoupon_def updateUser_def setUsers_def)
next
  assume a: "filter (\<lambda>v. id_u v = userId) (users s) = [u] \<and> 0 < couponsAvailable u
        \<and> findIndex (\<lambda>c. \<not> truthy (redeemedAt c)) (couponHistory u) = Some i"
  then have single: "filter (\<lambda>v. id_u v = userId) (users s) = [u]"
    and pos: "0 < couponsAvailable u"
    and idx: "findIndex (\<lambda>c. \<not> truthy (redeemedAt c)) (couponHistory u) = Some i"
    by simp_all
  let ?f = "(\<lambda>u s'. Inr (if id_u u = userId then redeemCoupon_updater userId now u s' else (u, s')))
      :: user \<Rightarrow> state \<Rightarrow> (error \<times> state) + (user \<times> state)"
  have skip: "\<And>v s. id_u v \<noteq> userId \<Longrightarrow> ?f v s = Inr (v, s)" by simp
  from single have "u \<in> set (filter (\<lambda>v. id_u v = userId) (users s))" by simp
  then have uid: "id_u u = userId" by simp
  have e: "setUsers ?f s =
     (case ?f u s of
        Inl (e, s') \<Rightarrow> Crashed e (s\<lparr>idCounter := idCounter s'\<rparr>)
      | Inr (u', s') \<Rightarrow> Done (s'\<lparr>users := map (\<lambda>v. if id_u v = userId then u' else v) (users s)\<rparr>))"
    using skip single by (rule setUsers_single)
  show "redeemCoupon userId now s =
              Done ((commitAudit ''coupon.redeem''
                       [(''userId'', Str userId), (''couponId'', Str (id_cp (couponHistory u ! i)))]
                       (authUserId s) now s)
                    \<lparr>users := map (\<lambda>v. if id_u v = userId
                         then u\<lparr>couponsAvailable := couponsAvailable u - 1,
                                couponHistory := (couponHistory u)
                                  [i := (couponHistory u ! i)\<lparr>redeemedAt := Some now\<rparr>]\<rparr>
                         else v) (users s)\<rparr>)"
    unfolding redeemCoupon_def updateUser_def e
    by (simp add: uid redeemCoupon_updater_redeems[OF pos idx])
  from findIndex_Some[OF idx]
  show "i < length (couponHistory u)" "\<not> truthy (redeemedAt (couponHistory u ! i))"
    "\<forall>j<i. truthy (redeemedAt (couponHistory u ! j))"
    by simp_all
  then show "\<forall>c\<in>set (couponHistory u). \<not> truthy (redeemedAt c) \<longrightarrow>
                    createdAt (couponHistory u ! i) \<le> createdAt c"
    if "sorted (map createdAt (couponHistory u))"
    using that sorted_first_least by blast
qed

theorem redeemCoupon_behaviour_witness:
  "list_all (\<lambda>v. id_u v = ''u_1'' \<longrightarrow>
       couponsAvailable v \<le> 0 \<or> list_all (\<lambda>c. truthy (redeemedAt c)) (couponHistory v)) (users seedState)
   \<and> redeemCoupon ''u_1'' 1710000000000 seedState = Done seedState
   \<and> filter (\<lambda>v. id_u v = ''u_1'') (users fiveState) = [hd (users fiveState)]
   \<and> 0 < couponsAvailable (hd (users fiveState))
   \<and> findIndex (\<lambda>c. \<not> truthy (redeemedAt c)) (couponHistory (hd (users fiveState))) = Some 0
   \<and> redeemCoupon ''u_1'' 1710000000000 fiveState =
        Done ((commitAudit ''coupon.redeem''
                 [(''userId'', Str ''u_1''),
                  (''couponId'', Str (id_cp (couponHistory (hd (users fiveState)) ! 0)))]
                 (authUserId fiveState) 1710000000000 fiveState)
              \<lparr>users := map (\<lambda>v. if id_u v = ''u_1''
                   then (hd (users fiveState))
                          \<lparr>couponsAvailable := couponsAvailable (hd (users fiveState)) - 1,
                           couponHistory := (couponHistory (hd (users fiveState)))
                             [0 := (couponHistory (hd (users fiveState)) ! 0)
                                     \<lparr>redeemedAt := Some 1710000000000\<rparr>]\<rparr>
                   else v) (users fiveState)\<rparr>)
   \<and> map couponsAvailable (users (stateOf (redeemCoupon ''u_1'' 1710000000000 fiveState))) = [0, 0, 0]"
proof -
  have h1: "list_all (\<lambda>v. id_u v = ''u_1'' \<longrightarrow>
       couponsAvailable v \<le> 0 \<or> list_all (\<lambda>c. truthy (redeemedAt c)) (couponHistory v)) (users seedState)"
    by code_simp
  have h2: "filter (\<lambda>v. id_u v = ''u_1'') (users fiveState) = [hd (users fiveState)]"
    by code_simp
  have h3: "0 < couponsAvailable (hd (users fiveState))"
    by code_simp
  have h4: "findIndex (\<lambda>c. \<not> truthy (redeemedAt c)) (couponHistory (hd (users fiveState))) = Some 0"
    by code_simp
  have v: "map couponsAvailable (users (stateOf (redeemCoupon ''u_1'' 1710000000000 fiveState))) = [0, 0, 0]"
    by code_simp
  note a = redeemCoupon_behaviour[of "''u_1''" 1710000000000 seedState]
  note b = redeemCoupon_behaviour[of "''u_1''" 1710000000000 fiveState "hd (users fiveState)" 0]
  from a h1 have c1: "redeemCoupon ''u_1'' 1710000000000 seedState = Done seedState" by blast
  from b h2 h3 h4 have c2: "redeemCoupon ''u_1'' 1710000000000 fiveState =
        Done ((commitAudit ''coupon.redeem''
                 [(''userId'', Str ''u_1''),
                  (''couponId'', Str (id_cp (couponHistory (hd (users fiveState)) ! 0)))]
                 (authUserId fiveState) 1710000000000 fiveState)
              \<lparr>users := map (\<lambda>v. if id_u v = ''u_1''
                   then (hd (users fiveState))
                          \<lparr>couponsAvailable := couponsAvailable (hd (users fiveState)) - 1,
                           couponHistory := (couponHistory (hd (users fiveState)))
                             [0 := (couponHistory (hd (users fiveState)) ! 0)
                                     \<lparr>redeemedAt := Some 1710000000000\<rparr>]\<rparr>
                   else v) (users fiveState)\<rparr>)"
    by blast
  from h1 c1 h2 h3 h4 c2 v show ?thesis by (intro conjI)
qed

theorem redeemCoupon_no_coupon_counterexample:
  "couponsAvailable (hd (users seedState)) = 0
   \<and> couponHistory (hd (users seedState)) = []
   \<and> id_u (hd (users seedState)) = ''u_1''
   \<and> redeemCoupon ''u_1'' 1710000000000 seedState = Done seedState"
  by code_simp

lemma performCheckIn_updater_skip:
  "id_u v \<noteq> userId \<Longrightarrow> performCheckIn_updater userId startTs v s = Inr (v, s)"
  by (simp add: performCheckIn_updater_def)

lemma performCheckIn_updater_refs [simp]:
  "lastActionRef (resState (performCheckIn_updater userId startTs u s)) = lastActionRef s"
  "lastScanValRef (resState (performCheckIn_updater userId startTs u s)) = lastScanValRef s"
  "lastScanTsRef (resState (performCheckIn_updater userId startTs u s)) = lastScanTsRef s"
  by (simp_all add: performCheckIn_updater_def Let_def case_prod_beta)

lemma performCheckIn_passed:
  assumes "\<not> startTs - lastActionRef s < 1200"
    and "\<not> (scanValue \<noteq> [] \<and> scanValue = lastScanValRef s \<and> startTs - lastScanTsRef s < 2500)"
  shows "performCheckIn userId scanValue startTs s =
     setUsers (performCheckIn_updater userId startTs)
       (s\<lparr>lastActionRef := startTs, lastScanValRef := scanValue, lastScanTsRef := startTs\<rparr>)"
  unfolding performCheckIn_def using assms by (simp only: if_False)

lemma setUsers_first_throw:
  assumes skip: "\<And>v s. id_u v \<noteq> uid \<Longrightarrow> f v s = Inr (v, s)"
    and fnd: "findUser uid s = Some u"
    and thr: "f u s = Inl (e, s')"
  shows "setUsers f s = Crashed e (s\<lparr>idCounter := idCounter s'\<rparr>)"
proof -
  from fnd have "find (\<lambda>v. id_u v = uid) (users s) = Some u" by (simp add: findUser_def)
  with skip have "mapUsers f (users s) s = Inl (e, s')"
    using thr by (rule mapUsers_first_throw)
  then show ?thesis by (simp add: setUsers_def)
qed


lemma deleteCheckIn_updater_id [simp]:
  "id_u (fst (deleteCheckIn_updater userId checkInId now u s)) = id_u u"
  by (simp add: deleteCheckIn_updater_def Let_def rebuildLoop_eq split: option.splits)

lemma deleteCheckIn_updater_found:
  assumes "checkInId \<in> id_ci ` set (checkIns u)"
  shows "deleteCheckIn_updater userId checkInId now u s =
     (let newCheckIns = filter (\<lambda>c. id_ci c \<noteq> checkInId) (checkIns u);
          target = length newCheckIns div 5;
          existingSorted = sort_key createdAt (couponHistory u);
          rebuilt = take target existingSorted
                    @ fst (freshCoupons (target - length existingSorted) now s);
          s1 = snd (freshCoupons (target - length existingSorted) now s);
          redeemedRemoved = filter (\<lambda>c. truthy (redeemedAt c)) (drop target existingSorted);
          s2 = (if redeemedRemoved \<noteq> [] then
                  commitAudit ''coupon.invalidate''
                    [(''userId'', Str userId), (''couponIds'', Strs (map id_cp redeemedRemoved))]
                    (authUserId s) now s1
                else s1)
      in (u\<lparr>checkIns := newCheckIns, totalCheckIns := int (length newCheckIns),
            couponsAvailable := int (length (filter (\<lambda>c. \<not> truthy (redeemedAt c)) rebuilt)),
            couponHistory := rebuilt,
            lastCheckInAt := (if newCheckIns \<noteq> [] then ts_ci (last newCheckIns) else 0)\<rparr>,
          commitAudit ''checkin.delete''
            [(''userId'', Str userId), (''checkInId'', Str checkInId)] (authUserId s) now s2))"
proof -
  from assms have "findIndex (\<lambda>c. id_ci c = checkInId) (checkIns u) \<noteq> None"
    by (auto simp: findIndex_None)
  then obtain idx where "findIndex (\<lambda>c. id_ci c = checkInId) (checkIns u) = Some idx" by blast
  then show ?thesis
    by (simp add: deleteCheckIn_updater_def Let_def rebuildLoop_eq COUPON_MODULO_def)
qed

lemma setUsers_first_done:
  assumes skip: "\<And>v s. id_u v \<noteq> uid \<Longrightarrow> f v s = Inr (v, s)"
    and idp: "\<And>v s v' s'. f v s = Inr (v', s') \<Longrightarrow> id_u v' = id_u v"
    and fnd: "findUser uid s = Some u"
    and res: "setUsers f s = Done s'"
  shows "\<exists>u' s1. f u s = Inr (u', s1) \<and> findUser uid s' = Some u'"
proof -
  from res obtain us' s2 where m: "mapUsers f (users s) s = Inr (us', s2)" and s': "s' = s2\<lparr>users := us'\<rparr>"
    by (auto simp: setUsers_def split: sum.splits prod.splits)
  from fnd have "find (\<lambda>v. id_u v = uid) (users s) = Some u" by (simp add: findUser_def)
  with skip idp have "\<exists>u' s1. f u s = Inr (u', s1) \<and> find (\<lambda>v. id_u v = uid) us' = Some u'"
    using m by (rule mapUsers_first_done)
  then show ?thesis by (simp add: s' findUser_def)
qed

lemma deleteCheckIn_findUser:
  assumes "findUser userId s = Some u"
  shows "findUser userId (stateOf (deleteCheckIn userId checkInId now s)) =
           Some (fst (deleteCheckIn_updater userId checkInId now u s))"
proof -
  let ?f = "(\<lambda>u s'. Inr (if id_u u \<noteq> userId then (u, s') else deleteCheckIn_updater userId checkInId now u s'))
              :: user \<Rightarrow> state \<Rightarrow> (error \<times> state) + (user \<times> state)"
  obtain r where "mapUsers ?f (users s) s = Inr r"
    using mapUsers_no_throw[of ?f] by blast
  then obtain s' where d: "setUsers ?f s = Done s'"
    by (cases r) (simp add: setUsers_def)
  from assms have "find (\<lambda>v. id_u v = userId) (users s) = Some u" by (simp add: findUser_def)
  then have uid: "id_u u = userId" by (auto simp: find_Some_iff)
  have skip: "\<And>v s. id_u v \<noteq> userId \<Longrightarrow> ?f v s = Inr (v, s)" by simp
  have idp: "\<And>v s v' s'. ?f v s = Inr (v', s') \<Longrightarrow> id_u v' = id_u v"
    by (auto split: if_splits) (metis deleteCheckIn_updater_id fst_conv)
  have "\<exists>u' s1. ?f u s = Inr (u', s1) \<and> findUser userId s' = Some u'"
    by (rule setUsers_first_done[where f = ?f and uid = userId and s = s and u = u, OF skip idp assms d])
  then show ?thesis using uid d by (auto simp: deleteCheckIn_def)
qed

section \<open>Deletion keeps the retained coupons as they are\<close>

text \<open>
  C2. Deleting an existing check-in of a user leaves \<^verbatim>\<open>totalCheckIns\<close> at the number of
  remaining check-ins, and the first \<^verbatim>\<open>floor(totalCheckIns / 5)\<close> coupons of the old
  history, taken in creation-time order, are the coupons at the same positions of the
  rebuilt history, unchanged (redemption state included). In particular, a coupon at
  position \<open>k\<close> with \<open>5 * k\<close> at most the new \<^verbatim>\<open>totalCheckIns\<close> is what it was.
\<close>

theorem deleteCheckIn_keeps_prefix:
  fixes now :: int and u' :: user
  assumes usr: "findUser userId s = Some u"
    and ex: "checkInId \<in> id_ci ` set (checkIns u)"
  defines "u' \<equiv> fst (deleteCheckIn_updater userId checkInId now u s)"
  shows "findUser userId (stateOf (deleteCheckIn userId checkInId now s)) = Some u'
     \<and> totalCheckIns u' = int (length (filter (\<lambda>c. id_ci c \<noteq> checkInId) (checkIns u)))
     \<and> take (length (couponHistory u)) (couponHistory u') =
         take (nat (totalCheckIns u' div 5)) (sort_key createdAt (couponHistory u))
     \<and> (\<forall>k. 1 \<le> k \<and> k \<le> length (couponHistory u) \<and> 5 * int k \<le> totalCheckIns u' \<longrightarrow>
           couponHistory u' ! (k - 1) = sort_key createdAt (couponHistory u) ! (k - 1))"
proof -
  let ?n = "length (filter (\<lambda>c. id_ci c \<noteq> checkInId) (checkIns u))"
  let ?ex = "sort_key createdAt (couponHistory u)"
  have tot: "totalCheckIns u' = int ?n"
    and hist: "couponHistory u' = take (?n div 5) ?ex @ fst (freshCoupons (?n div 5 - length ?ex) now s)"
    unfolding u'_def by (simp_all add: deleteCheckIn_updater_found[OF ex] Let_def)
  have t: "nat (totalCheckIns u' div 5) = ?n div 5"
    by (simp add: tot zdiv_int[symmetric] del: of_nat_div)
  have pre: "take (length (couponHistory u)) (couponHistory u') = take (?n div 5) ?ex"
    by (simp add: hist min_def)
  have nth: "couponHistory u' ! (k - 1) = ?ex ! (k - 1)"
    if k: "1 \<le> k \<and> k \<le> length (couponHistory u) \<and> 5 * int k \<le> totalCheckIns u'" for k
  proof -
    from k tot have "k \<le> ?n div 5" by (simp add: less_eq_div_iff_mult_less_eq) 
    with k have "k - 1 < length (take (?n div 5) ?ex)" by auto
    then show ?thesis
      unfolding hist using k by (simp add: nth_append)
  qed
  have f: "findUser userId (stateOf (deleteCheckIn userId checkInId now s)) = Some u'"
    unfolding u'_def by (rule deleteCheckIn_findUser[OF usr])
  have pre': "take (length (couponHistory u)) (couponHistory u') =
         take (nat (totalCheckIns u' div 5)) ?ex"
    by (simp only: pre t)
  from f tot pre' nth show ?thesis by blast
qed

theorem deleteCheckIn_keeps_prefix_witness:
  "findUser ''u_1'' sevenState = Some (hd (users sevenState))
   \<and> ''ci_8'' \<in> id_ci ` set (checkIns (hd (users sevenState)))
   \<and> findUser ''u_1'' (stateOf (deleteCheckIn ''u_1'' ''ci_8'' 1730000000000 sevenState)) =
        Some (fst (deleteCheckIn_updater ''u_1'' ''ci_8'' 1730000000000 (hd (users sevenState)) sevenState))
   \<and> totalCheckIns (fst (deleteCheckIn_updater ''u_1'' ''ci_8'' 1730000000000 (hd (users sevenState)) sevenState)) = 6
   \<and> couponHistory (fst (deleteCheckIn_updater ''u_1'' ''ci_8'' 1730000000000 (hd (users sevenState)) sevenState)) ! (1 - 1)
       = sort_key createdAt (couponHistory (hd (users sevenState))) ! (1 - 1)
   \<and> map redeemedAt (couponHistory (hd (users sevenState))) = [Some 1710000000000]
   \<and> map redeemedAt (couponHistory (hd (users (stateOf (deleteCheckIn ''u_1'' ''ci_8'' 1730000000000 sevenState)))))
       = [Some 1710000000000]"
proof -
  let ?u' = "fst (deleteCheckIn_updater ''u_1'' ''ci_8'' 1730000000000 (hd (users sevenState)) sevenState)"
  have h1: "findUser ''u_1'' sevenState = Some (hd (users sevenState))" by code_simp
  have h2: "''ci_8'' \<in> id_ci ` set (checkIns (hd (users sevenState)))" by code_simp
  have v1: "totalCheckIns ?u' = 6" by code_simp
  have v2: "map redeemedAt (couponHistory (hd (users sevenState))) = [Some 1710000000000]" by code_simp
  have v3: "map redeemedAt (couponHistory (hd (users (stateOf (deleteCheckIn ''u_1'' ''ci_8'' 1730000000000 sevenState)))))
       = [Some 1710000000000]" by code_simp
  have k: "(1::nat) \<le> 1 \<and> 1 \<le> length (couponHistory (hd (users sevenState))) \<and> 5 * int 1 \<le> totalCheckIns ?u'"
    by code_simp
  note t = deleteCheckIn_keeps_prefix[OF h1 h2, of 1730000000000]
  from t have c1: "findUser ''u_1'' (stateOf (deleteCheckIn ''u_1'' ''ci_8'' 1730000000000 sevenState)) = Some ?u'"
    by blast
  from t k have c2: "couponHistory ?u' ! (1 - 1) = sort_key createdAt (couponHistory (hd (users sevenState))) ! (1 - 1)"
    by blast
  from h1 h2 c1 v1 c2 v2 v3 show ?thesis by (intro conjI)
qed

lemma deleteCheckIn_single:
  assumes single: "filter (\<lambda>v. id_u v = userId) (users s) = [u]"
  shows "deleteCheckIn userId checkInId now s =
     Done ((snd (deleteCheckIn_updater userId checkInId now u s))
           \<lparr>users := map (\<lambda>v. if id_u v = userId
                then fst (deleteCheckIn_updater userId checkInId now u s) else v) (users s)\<rparr>)"
proof -
  let ?f = "(\<lambda>u s'. Inr (if id_u u \<noteq> userId then (u, s') else deleteCheckIn_updater userId checkInId now u s'))
              :: user \<Rightarrow> state \<Rightarrow> (error \<times> state) + (user \<times> state)"
  have skip: "\<And>v s. id_u v \<noteq> userId \<Longrightarrow> ?f v s = Inr (v, s)" by simp
  from single have "u \<in> set (filter (\<lambda>v. id_u v = userId) (users s))" by simp
  then have uid: "id_u u = userId" by simp
  have e: "setUsers ?f s =
     (case ?f u s of
        Inl (e, s') \<Rightarrow> Crashed e (s\<lparr>idCounter := idCounter s'\<rparr>)
      | Inr (u', s') \<Rightarrow> Done (s'\<lparr>users := map (\<lambda>v. if id_u v = userId then u' else v) (users s)\<rparr>))"
    by (rule setUsers_single[where f = ?f and uid = userId, OF skip single])
  show ?thesis
    unfolding deleteCheckIn_def e by (simp add: uid case_prod_beta)
qed

lemma deleteCheckIn_audit_log:
  fixes now :: int and target :: nat and existingSorted redeemedRemoved :: "coupon list"
    and s1 s' :: state
  assumes single: "filter (\<lambda>v. id_u v = userId) (users s) = [u]"
    and ex: "checkInId \<in> id_ci ` set (checkIns u)"
  defines "target \<equiv> length (filter (\<lambda>c. id_ci c \<noteq> checkInId) (checkIns u)) div 5"
    and "existingSorted \<equiv> sort_key createdAt (couponHistory u)"
  defines "redeemedRemoved \<equiv> filter (\<lambda>c. truthy (redeemedAt c)) (drop target existingSorted)"
    and "s1 \<equiv> snd (freshCoupons (target - length existingSorted) now s)"
    and "s' \<equiv> stateOf (deleteCheckIn userId checkInId now s)"
  shows "thrown (deleteCheckIn userId checkInId now s) = None
     \<and> map couponHistory (filter (\<lambda>v. id_u v = userId) (users s')) =
         [take target existingSorted @ fst (freshCoupons (target - length existingSorted) now s)]
     \<and> (redeemedRemoved = [] \<longrightarrow>
          auditLog s' =
            take 500 (auditEntryOf ''checkin.delete''
                        [(''userId'', Str userId), (''checkInId'', Str checkInId)] now s1
                      # auditLog s))
     \<and> (redeemedRemoved \<noteq> [] \<longrightarrow>
          auditLog s' =
            take 500 (auditEntryOf ''checkin.delete''
                        [(''userId'', Str userId), (''checkInId'', Str checkInId)] now
                        (commitAudit ''coupon.invalidate''
                           [(''userId'', Str userId), (''couponIds'', Strs (map id_cp redeemedRemoved))]
                           (authUserId s) now s)
                      # auditEntryOf ''coupon.invalidate''
                          [(''userId'', Str userId), (''couponIds'', Strs (map id_cp redeemedRemoved))]
                          now s
                      # auditLog s))"
proof -
  note d = deleteCheckIn_single[OF single, of checkInId now]
  note f = deleteCheckIn_updater_found[OF ex, of userId now s]
  from single have "u \<in> set (filter (\<lambda>v. id_u v = userId) (users s))" by simp
  then have uid: "id_u u = userId" by simp
  have th: "thrown (deleteCheckIn userId checkInId now s) = None"
    by (simp add: d)
  have fl: "filter (\<lambda>v. id_u v = userId) (map (\<lambda>v. if id_u v = userId then w else v) us)
            = map (\<lambda>v. w) (filter (\<lambda>v. id_u v = userId) us)" if "id_u w = userId" for w us
    using that by (induction us) simp_all
  have hist: "map couponHistory (filter (\<lambda>v. id_u v = userId) (users s')) =
         [take target existingSorted @ fst (freshCoupons (target - length existingSorted) now s)]"
    unfolding s'_def d
    by (simp add: fl uid single) (simp add: f Let_def target_def existingSorted_def)
  have log: "auditLog s' = auditLog (snd (deleteCheckIn_updater userId checkInId now u s))"
    unfolding s'_def d by simp
  have a1: "auditLog s' =
            take 500 (auditEntryOf ''checkin.delete''
                        [(''userId'', Str userId), (''checkInId'', Str checkInId)] now s1
                      # auditLog s)" if "redeemedRemoved = []"
    using that unfolding log f
    by (simp add: Let_def commitAudit_auditLog auditEntryOf_def
        target_def existingSorted_def redeemedRemoved_def s1_def)
  have a2: "auditLog s' =
            take 500 (auditEntryOf ''checkin.delete''
                        [(''userId'', Str userId), (''checkInId'', Str checkInId)] now
                        (commitAudit ''coupon.invalidate''
                           [(''userId'', Str userId), (''couponIds'', Strs (map id_cp redeemedRemoved))]
                           (authUserId s) now s)
                      # auditEntryOf ''coupon.invalidate''
                          [(''userId'', Str userId), (''couponIds'', Strs (map id_cp redeemedRemoved))]
                          now s
                      # auditLog s)" if ne: "redeemedRemoved \<noteq> []"
  proof -
    from ne have "drop target existingSorted \<noteq> []"
      unfolding redeemedRemoved_def by auto
    then have "target - length existingSorted = 0" by simp
    then have s1: "s1 = s" by (simp add: s1_def)
    have tk: "take 500 (a # take 500 (b # l)) = take 500 (a # b # l)"
      for a b :: auditEntry and l
      by (simp add: take_Cons')
    show ?thesis
      using ne s1 unfolding log f
      by (simp add: Let_def commitAudit_auditLog auditEntryOf_def tk
        target_def[symmetric] existingSorted_def[symmetric] redeemedRemoved_def[symmetric] s1_def[symmetric]
        del: take_Suc_Cons)
  qed
  from th hist a1 a2 show ?thesis by blast
qed

section \<open>Deletion audits the redeemed coupons it drops\<close>

text \<open>
  C3. Deleting an existing check-in of the user with the given id never throws and
  rebuilds the coupon history as the first \<^verbatim>\<open>targetCouponCount\<close> coupons in creation-time
  order (padded with fresh coupons where there are fewer): the coupons beyond that
  position are dropped. When none of the dropped coupons was redeemed, the only audit
  entry written is \<^verbatim>\<open>checkin.delete\<close>; when at least one was, exactly one
  \<^verbatim>\<open>coupon.invalidate\<close> entry listing the ids of the dropped redeemed coupons is
  written before it.
\<close>

theorem deleteCheckIn_invalidate_audit:
  assumes single: "filter (\<lambda>v. id_u v = userId) (users s) = [u]"
    and ex: "checkInId \<in> id_ci ` set (checkIns u)"
  shows "thrown (deleteCheckIn userId checkInId now s) = None
     \<and> map couponHistory (filter (\<lambda>v. id_u v = userId)
          (users (stateOf (deleteCheckIn userId checkInId now s)))) =
         [take (targetCouponCountAfter u checkInId) (sort_key createdAt (couponHistory u))
          @ fst (freshCoupons (targetCouponCountAfter u checkInId - length (couponHistory u)) now s)]
     \<and> (redeemedDropped u checkInId = [] \<longrightarrow>
          auditLog (stateOf (deleteCheckIn userId checkInId now s)) =
            take 500 (auditEntryOf ''checkin.delete''
                        [(''userId'', Str userId), (''checkInId'', Str checkInId)] now
                        (snd (freshCoupons (targetCouponCountAfter u checkInId - length (couponHistory u)) now s))
                      # auditLog s))
     \<and> (redeemedDropped u checkInId \<noteq> [] \<longrightarrow>
          auditLog (stateOf (deleteCheckIn userId checkInId now s)) =
            take 500 (auditEntryOf ''checkin.delete''
                        [(''userId'', Str userId), (''checkInId'', Str checkInId)] now
                        (commitAudit ''coupon.invalidate''
                           [(''userId'', Str userId),
                            (''couponIds'', Strs (map id_cp (redeemedDropped u checkInId)))]
                           (authUserId s) now s)
                      # auditEntryOf ''coupon.invalidate''
                          [(''userId'', Str userId),
                           (''couponIds'', Strs (map id_cp (redeemedDropped u checkInId)))]
                          now s
                      # auditLog s))"
  using deleteCheckIn_audit_log[OF single ex, of now]
  unfolding redeemedDropped_def droppedCoupons_def targetCouponCountAfter_def
  by simp

theorem deleteCheckIn_invalidate_audit_witness:
  "filter (\<lambda>v. id_u v = ''u_1'') (users redeemedFiveState) = [hd (users redeemedFiveState)]
   \<and> ''ci_4'' \<in> id_ci ` set (checkIns (hd (users redeemedFiveState)))
   \<and> map id_cp (redeemedDropped (hd (users redeemedFiveState)) ''ci_4'') = [''cp_d'']
   \<and> auditLog (stateOf (deleteCheckIn ''u_1'' ''ci_4'' 1730000000000 redeemedFiveState)) =
        take 500 (auditEntryOf ''checkin.delete''
                    [(''userId'', Str ''u_1''), (''checkInId'', Str ''ci_4'')] 1730000000000
                    (commitAudit ''coupon.invalidate''
                       [(''userId'', Str ''u_1''), (''couponIds'', Strs [''cp_d''])]
                       (authUserId redeemedFiveState) 1730000000000 redeemedFiveState)
                  # auditEntryOf ''coupon.invalidate''
                      [(''userId'', Str ''u_1''), (''couponIds'', Strs [''cp_d''])]
                      1730000000000 redeemedFiveState
                  # auditLog redeemedFiveState)
   \<and> map couponHistory (filter (\<lambda>v. id_u v = ''u_1'')
        (users (stateOf (deleteCheckIn ''u_1'' ''ci_4'' 1730000000000 redeemedFiveState)))) = [[]]
   \<and> filter (\<lambda>v. id_u v = ''u_1'') (users sevenState) = [hd (users sevenState)]
   \<and> ''ci_8'' \<in> id_ci ` set (checkIns (hd (users sevenState)))
   \<and> redeemedDropped (hd (users sevenState)) ''ci_8'' = []
   \<and> auditLog (stateOf (deleteCheckIn ''u_1'' ''ci_8'' 1730000000000 sevenState)) =
        take 500 (auditEntryOf ''checkin.delete''
                    [(''userId'', Str ''u_1''), (''checkInId'', Str ''ci_8'')] 1730000000000 sevenState
                  # auditLog sevenState)"
proof -
  have a1: "filter (\<lambda>v. id_u v = ''u_1'') (users redeemedFiveState) = [hd (users redeemedFiveState)]"
    by code_simp
  have a2: "''ci_4'' \<in> id_ci ` set (checkIns (hd (users redeemedFiveState)))" by code_simp
  have a3: "map id_cp (redeemedDropped (hd (users redeemedFiveState)) ''ci_4'') = [''cp_d'']" by code_simp
  then have a4: "redeemedDropped (hd (users redeemedFiveState)) ''ci_4'' \<noteq> []" by auto
  have a5: "targetCouponCountAfter (hd (users redeemedFiveState)) ''ci_4'' = 0" by code_simp
  have b1: "filter (\<lambda>v. id_u v = ''u_1'') (users sevenState) = [hd (users sevenState)]" by code_simp
  have b2: "''ci_8'' \<in> id_ci ` set (checkIns (hd (users sevenState)))" by code_simp
  have b3: "redeemedDropped (hd (users sevenState)) ''ci_8'' = []" by code_simp
  have b4: "targetCouponCountAfter (hd (users sevenState)) ''ci_8'' - length (couponHistory (hd (users sevenState))) = 0"
    by code_simp
  note ta = deleteCheckIn_invalidate_audit[OF a1 a2, of 1730000000000]
  note tb = deleteCheckIn_invalidate_audit[OF b1 b2, of 1730000000000]
  from ta a4 have c1: "auditLog (stateOf (deleteCheckIn ''u_1'' ''ci_4'' 1730000000000 redeemedFiveState)) =
        take 500 (auditEntryOf ''checkin.delete''
                    [(''userId'', Str ''u_1''), (''checkInId'', Str ''ci_4'')] 1730000000000
                    (commitAudit ''coupon.invalidate''
                       [(''userId'', Str ''u_1''), (''couponIds'', Strs [''cp_d''])]
                       (authUserId redeemedFiveState) 1730000000000 redeemedFiveState)
                  # auditEntryOf ''coupon.invalidate''
                      [(''userId'', Str ''u_1''), (''couponIds'', Strs [''cp_d''])]
                      1730000000000 redeemedFiveState
                  # auditLog redeemedFiveState)"
    unfolding a3 by blast
  from ta have c2: "map couponHistory (filter (\<lambda>v. id_u v = ''u_1'')
        (users (stateOf (deleteCheckIn ''u_1'' ''ci_4'' 1730000000000 redeemedFiveState)))) = [[]]"
    unfolding a5 by simp
  from tb b3 have c3: "auditLog (stateOf (deleteCheckIn ''u_1'' ''ci_8'' 1730000000000 sevenState)) =
        take 500 (auditEntryOf ''checkin.delete''
                    [(''userId'', Str ''u_1''), (''checkInId'', Str ''ci_8'')] 1730000000000 sevenState
                  # auditLog sevenState)"
    unfolding b4 by simp
  from a1 a2 a3 c1 c2 b1 b2 b3 c3 show ?thesis by (intro conjI)
qed

section \<open>The effect of an operation on one user\<close>

lemma mapUsers_other:
  assumes keep: "\<And>v s v' s'. f v s = Inr (v', s') \<Longrightarrow> id_u v' = id_u v \<and> (id_u v = uid \<longrightarrow> v' = v)"
    and res: "mapUsers f us s = Inr (us', s')"
  shows "find (\<lambda>v. id_u v = uid) us' = find (\<lambda>v. id_u v = uid) us"
  using res
proof (induction us arbitrary: s us')
  case Nil
  then show ?case by simp
next
  case (Cons v vs)
  from Cons.prems obtain v1 s1 vs1 where a: "f v s = Inr (v1, s1)"
    and b: "mapUsers f vs s1 = Inr (vs1, s')" and c: "us' = v1 # vs1"
    by (auto split: sum.splits prod.splits)
  from keep[OF a] Cons.IH[OF b] c show ?case by auto
qed

lemma setUsers_thrown_users:
  assumes thr: "thrown (setUsers f s) = Some e"
  shows "users (stateOf (setUsers f s)) = users s"
proof (cases "mapUsers f (users s) s")
  case (Inl l)
  then show ?thesis by (cases l) (simp add: setUsers_def)
next
  case (Inr r)
  with thr show ?thesis by (cases r) (simp add: setUsers_def)
qed

lemma setUsers_other:
  assumes keep: "\<And>v s v' s'. f v s = Inr (v', s') \<Longrightarrow> id_u v' = id_u v \<and> (id_u v = uid \<longrightarrow> v' = v)"
    and fr: "\<And>u s. users (resState (f u s)) = users s"
  shows "findUser uid (stateOf (setUsers f s)) = findUser uid s"
proof (cases "mapUsers f (users s) s")
  case (Inr r)
  obtain us' s2 where r: "r = (us', s2)" by (cases r)
  with Inr have m: "mapUsers f (users s) s = Inr (us', s2)" by simp
  from keep m have "find (\<lambda>v. id_u v = uid) us' = find (\<lambda>v. id_u v = uid) (users s)"
    by (rule mapUsers_other)
  then show ?thesis by (simp add: setUsers_def m findUser_def)
next
  case (Inl l)
  then show ?thesis by (cases l) (simp add: setUsers_def findUser_def)
qed

lemma performCheckIn_updater_anomaly:
  assumes "id_u u = userId" and "lastCheckInAt u \<noteq> 0 \<and> startTs - lastCheckInAt u < 0"
  shows "performCheckIn_updater userId startTs u s =
     Inl (TIME_ANOMALY,
          commitAudit ''clock.anomaly''
            [(''userId'', Str userId), (''last'', Num (lastCheckInAt u)), (''now'', Num startTs)]
            (authUserId s) startTs s)"
  using assms by (simp add: performCheckIn_updater_def)

lemma performCheckIn_updater_soon:
  assumes "id_u u = userId" and "\<not> (lastCheckInAt u \<noteq> 0 \<and> startTs - lastCheckInAt u < 0)"
    and "lastCheckInAt u \<noteq> 0 \<and> startTs - lastCheckInAt u < CHECKIN_INTERVAL_MS"
  shows "performCheckIn_updater userId startTs u s = Inl (TOO_SOON, s)"
  using assms by (simp add: performCheckIn_updater_def)

lemma performCheckIn_updater_pass:
  assumes "id_u u = userId" and "\<not> (lastCheckInAt u \<noteq> 0 \<and> startTs - lastCheckInAt u < 0)"
    and "\<not> (lastCheckInAt u \<noteq> 0 \<and> startTs - lastCheckInAt u < CHECKIN_INTERVAL_MS)"
  shows "fst (projr (performCheckIn_updater userId startTs u s)) =
           u\<lparr>checkIns := checkIns u @ [\<lparr>id_ci = fst (genId ''ci'' s), ts_ci = startTs\<rparr>],
               totalCheckIns := totalCheckIns u + 1,
               couponsAvailable := couponsAvailable u + (if (totalCheckIns u + 1) mod 5 = 0 then 1 else 0),
               couponHistory := couponHistory u @
                 (if (totalCheckIns u + 1) mod 5 = 0
                  then [\<lparr>id_cp = fst (genId ''cp'' (snd (genId ''ci'' s))), createdAt = startTs,
                         redeemedAt = None\<rparr>]
                  else []),
               lastCheckInAt := startTs\<rparr>"
proof -
  have n: "\<not> id_u u \<noteq> userId" using assms(1) by simp
  show ?thesis
    unfolding performCheckIn_updater_def if_not_P[OF n] if_not_P[OF assms(2)] if_not_P[OF assms(3)]
    by (simp add: Let_def case_prod_beta COUPON_MODULO_def)
qed

lemma performCheckIn_updater_Inr:
  assumes res: "performCheckIn_updater userId startTs u s = Inr (u', s')"
    and uid: "id_u u = userId"
  shows "u' = u\<lparr>checkIns := checkIns u @ [\<lparr>id_ci = fst (genId ''ci'' s), ts_ci = startTs\<rparr>],
               totalCheckIns := totalCheckIns u + 1,
               couponsAvailable := couponsAvailable u + (if (totalCheckIns u + 1) mod 5 = 0 then 1 else 0),
               couponHistory := couponHistory u @
                 (if (totalCheckIns u + 1) mod 5 = 0
                  then [\<lparr>id_cp = fst (genId ''cp'' (snd (genId ''ci'' s))), createdAt = startTs,
                         redeemedAt = None\<rparr>]
                  else []),
               lastCheckInAt := startTs\<rparr>"
proof -
  have g1: "\<not> (lastCheckInAt u \<noteq> 0 \<and> startTs - lastCheckInAt u < 0)"
    using performCheckIn_updater_anomaly[OF uid, of startTs s] res by auto
  have g2: "\<not> (lastCheckInAt u \<noteq> 0 \<and> startTs - lastCheckInAt u < CHECKIN_INTERVAL_MS)"
    using performCheckIn_updater_soon[OF uid g1, of s] res by auto
  from performCheckIn_updater_pass[OF uid g1 g2, of s] res show ?thesis by simp
qed

lemma performCheckIn_updater_id:
  assumes "performCheckIn_updater userId startTs v s = Inr (v', s')"
  shows "id_u v' = id_u v"
proof (cases "id_u v = userId")
  case True
  from performCheckIn_updater_Inr[OF assms True] show ?thesis by simp
next
  case False
  with assms show ?thesis by (simp add: performCheckIn_updater_def)
qed

lemma redeemCoupon_updater_id [simp]:
  "id_u (fst (redeemCoupon_updater userId now u s)) = id_u u"
proof (cases "couponsAvailable u \<le> 0")
  case True
  then show ?thesis by (simp add: redeemCoupon_updater_def)
next
  case False
  show ?thesis
  proof (cases "findIndex (\<lambda>c. \<not> truthy (redeemedAt c)) (couponHistory u)")
    case None
    with False show ?thesis by (simp add: redeemCoupon_updater_def)
  next
    case (Some i)
    with False show ?thesis by (simp add: redeemCoupon_updater_def Let_def)
  qed
qed

lemma performCheckIn_guarded:
  assumes "startTs - lastActionRef s < 1200
      \<or> (scanValue \<noteq> [] \<and> scanValue = lastScanValRef s \<and> startTs - lastScanTsRef s < 2500)"
  shows "\<exists>e. performCheckIn userId scanValue startTs s = Thrown e s"
proof (cases "startTs - lastActionRef s < 1200")
  case True
  then show ?thesis by (simp add: performCheckIn_def)
next
  case False
  with assms have d: "scanValue \<noteq> [] \<and> scanValue = lastScanValRef s \<and> startTs - lastScanTsRef s < 2500"
    by blast
  show ?thesis
    unfolding performCheckIn_def by (subst if_not_P[OF False], subst if_P[OF d], simp)
qed

lemma performCheckIn_unguarded:
  assumes "\<not> (startTs - lastActionRef s < 1200
      \<or> (scanValue \<noteq> [] \<and> scanValue = lastScanValRef s \<and> startTs - lastScanTsRef s < 2500))"
  shows "performCheckIn userId scanValue startTs s =
     setUsers (performCheckIn_updater userId startTs)
       (s\<lparr>lastActionRef := startTs, lastScanValRef := scanValue, lastScanTsRef := startTs\<rparr>)"
proof (rule performCheckIn_passed)
  from assms show "\<not> startTs - lastActionRef s < 1200" by blast
  from assms show "\<not> (scanValue \<noteq> [] \<and> scanValue = lastScanValRef s \<and> startTs - lastScanTsRef s < 2500)"
    by blast
qed

lemma performCheckIn_thrown_users:
  assumes a: "thrown (performCheckIn userId scanValue startTs s) = Some e"
  shows "users (stateOf (performCheckIn userId scanValue startTs s)) = users s"
proof (cases "startTs - lastActionRef s < 1200
      \<or> (scanValue \<noteq> [] \<and> scanValue = lastScanValRef s \<and> startTs - lastScanTsRef s < 2500)")
  case True
  from performCheckIn_guarded[OF True, of userId] show ?thesis by auto
next
  case False
  let ?s1 = "s\<lparr>lastActionRef := startTs, lastScanValRef := scanValue, lastScanTsRef := startTs\<rparr>"
  note e = performCheckIn_unguarded[OF False, of userId]
  from a have t: "thrown (setUsers (performCheckIn_updater userId startTs) ?s1) = Some e"
    by (simp only: e)
  have "users (stateOf (setUsers (performCheckIn_updater userId startTs) ?s1)) = users ?s1"
    using t by (rule setUsers_thrown_users)
  then show ?thesis by (simp add: e)
qed

lemma performCheckIn_other:
  assumes "userId \<noteq> uid"
  shows "findUser uid (stateOf (performCheckIn userId scanValue startTs s)) = findUser uid s"
proof (cases "startTs - lastActionRef s < 1200
      \<or> (scanValue \<noteq> [] \<and> scanValue = lastScanValRef s \<and> startTs - lastScanTsRef s < 2500)")
  case True
  from performCheckIn_guarded[OF True, of userId] show ?thesis by auto
next
  case False
  let ?s1 = "s\<lparr>lastActionRef := startTs, lastScanValRef := scanValue, lastScanTsRef := startTs\<rparr>"
  have "findUser uid (stateOf (setUsers (performCheckIn_updater userId startTs) ?s1)) = findUser uid ?s1"
  proof (rule setUsers_other)
    fix v s v' s'
    assume r: "performCheckIn_updater userId startTs v s = Inr (v', s')"
    show "id_u v' = id_u v \<and> (id_u v = uid \<longrightarrow> v' = v)"
    proof (intro conjI impI)
      show "id_u v' = id_u v" by (rule performCheckIn_updater_id[OF r])
      assume "id_u v = uid"
      with assms have "id_u v \<noteq> userId" by simp
      from performCheckIn_updater_skip[OF this, of startTs s] r show "v' = v" by simp
    qed
  qed simp
  moreover have "findUser uid ?s1 = findUser uid s" by (simp add: findUser_def)
  ultimately show ?thesis by (simp only: performCheckIn_unguarded[OF False])
qed

lemma redeemCoupon_other:
  assumes "userId \<noteq> uid"
  shows "findUser uid (stateOf (redeemCoupon userId now s)) = findUser uid s"
  unfolding redeemCoupon_def updateUser_def
proof (rule setUsers_other)
  fix v s v' s'
  assume "Inr (if id_u v = userId then redeemCoupon_updater userId now v s else (v, s)) = Inr (v', s')"
  then show "id_u v' = id_u v \<and> (id_u v = uid \<longrightarrow> v' = v)"
    using assms by (auto split: if_splits) (metis fst_conv redeemCoupon_updater_id)
qed simp

lemma deleteCheckIn_other:
  assumes "userId \<noteq> uid"
  shows "findUser uid (stateOf (deleteCheckIn userId checkInId now s)) = findUser uid s"
  unfolding deleteCheckIn_def
proof (rule setUsers_other)
  fix v s v' s'
  assume "Inr (if id_u v \<noteq> userId then (v, s) else deleteCheckIn_updater userId checkInId now v s) = Inr (v', s')"
  then show "id_u v' = id_u v \<and> (id_u v = uid \<longrightarrow> v' = v)"
    using assms by (auto split: if_splits) (metis fst_conv deleteCheckIn_updater_id)
qed simp

lemma redeemCoupon_findUser:
  assumes "findUser userId s = Some u"
  shows "findUser userId (stateOf (redeemCoupon userId now s)) =
           Some (fst (redeemCoupon_updater userId now u s))"
proof -
  let ?f = "(\<lambda>u s'. Inr (if id_u u = userId then redeemCoupon_updater userId now u s' else (u, s')))
              :: user \<Rightarrow> state \<Rightarrow> (error \<times> state) + (user \<times> state)"
  obtain r where "mapUsers ?f (users s) s = Inr r"
    using mapUsers_no_throw[of ?f] by blast
  then obtain s' where d: "setUsers ?f s = Done s'"
    by (cases r) (simp add: setUsers_def)
  from assms have "find (\<lambda>v. id_u v = userId) (users s) = Some u" by (simp add: findUser_def)
  then have uid: "id_u u = userId" by (auto simp: find_Some_iff)
  have skip: "\<And>v s. id_u v \<noteq> userId \<Longrightarrow> ?f v s = Inr (v, s)" by simp
  have idp: "\<And>v s v' s'. ?f v s = Inr (v', s') \<Longrightarrow> id_u v' = id_u v"
    by (auto split: if_splits) (metis redeemCoupon_updater_id fst_conv)
  have "\<exists>u' s1. ?f u s = Inr (u', s1) \<and> findUser userId s' = Some u'"
    by (rule setUsers_first_done[where f = ?f and uid = userId and s = s and u = u, OF skip idp assms d])
  then show ?thesis using uid d by (auto simp: redeemCoupon_def updateUser_def)
qed

lemma performCheckIn_done_findUser:
  assumes usr: "findUser userId s = Some u"
    and dn: "performCheckIn userId scanValue startTs s = Done s'"
  shows "\<exists>u' s1 s2. performCheckIn_updater userId startTs u s1 = Inr (u', s2)
           \<and> findUser userId s' = Some u'"
proof -
  let ?s1 = "s\<lparr>lastActionRef := startTs, lastScanValRef := scanValue, lastScanTsRef := startTs\<rparr>"
  have g: "\<not> (startTs - lastActionRef s < 1200
      \<or> (scanValue \<noteq> [] \<and> scanValue = lastScanValRef s \<and> startTs - lastScanTsRef s < 2500))"
  proof
    assume "startTs - lastActionRef s < 1200
      \<or> (scanValue \<noteq> [] \<and> scanValue = lastScanValRef s \<and> startTs - lastScanTsRef s < 2500)"
    from performCheckIn_guarded[OF this, of userId] dn show False by auto
  qed
  from dn have d: "setUsers (performCheckIn_updater userId startTs) ?s1 = Done s'"
    by (simp only: performCheckIn_unguarded[OF g])
  have fnd: "findUser userId ?s1 = Some u" using usr by (simp add: findUser_def)
  have "\<exists>u' s2. performCheckIn_updater userId startTs u ?s1 = Inr (u', s2) \<and> findUser userId s' = Some u'"
    by (rule setUsers_first_done[where f = "performCheckIn_updater userId startTs" and uid = userId,
          OF performCheckIn_updater_skip performCheckIn_updater_id fnd d])
  then show ?thesis by blast
qed

lemma redeemCoupon_updater_cases:
  "fst (redeemCoupon_updater userId now u s) = u
   \<or> (\<exists>i. i < length (couponHistory u)
          \<and> fst (redeemCoupon_updater userId now u s) =
              u\<lparr>couponsAvailable := couponsAvailable u - 1,
                 couponHistory := (couponHistory u)[i := (couponHistory u ! i)\<lparr>redeemedAt := Some now\<rparr>]\<rparr>)"
proof (cases "couponsAvailable u \<le> 0")
  case True
  then show ?thesis by (simp add: redeemCoupon_updater_def)
next
  case False
  show ?thesis
  proof (cases "findIndex (\<lambda>c. \<not> truthy (redeemedAt c)) (couponHistory u)")
    case None
    with False show ?thesis by (simp add: redeemCoupon_updater_def)
  next
    case (Some i)
    from findIndex_Some[OF Some] have "i < length (couponHistory u)" by simp
    moreover from False Some have "fst (redeemCoupon_updater userId now u s) =
              u\<lparr>couponsAvailable := couponsAvailable u - 1,
                 couponHistory := (couponHistory u)[i := (couponHistory u ! i)\<lparr>redeemedAt := Some now\<rparr>]\<rparr>"
      by (simp add: redeemCoupon_updater_def Let_def)
    ultimately show ?thesis by blast
  qed
qed

lemma findUser_id: "findUser uid s = Some u \<Longrightarrow> id_u u = uid"
  by (auto simp: findUser_def find_Some_iff)

lemma step_cadence:
  assumes usr: "findUser uid s = Some u"
    and nd: "\<not> deleteOf uid x"
    and i2: "int (length (couponHistory u)) = totalCheckIns u div 5"
  shows "\<exists>u'. findUser uid (stateOf (step x s)) = Some u'
      \<and> totalCheckIns u' =
          totalCheckIns u + (if checkInOf uid x \<and> thrown (step x s) = None then 1 else 0)
      \<and> int (length (couponHistory u')) = totalCheckIns u' div 5
      \<and> couponsAvailable u' =
          couponsAvailable u + (totalCheckIns u' div 5 - totalCheckIns u div 5)
          - (if redeemOf uid x \<and> findUser uid (stateOf (step x s)) \<noteq> findUser uid s then 1 else 0)
      \<and> (\<not> (redeemOf uid x \<and> findUser uid (stateOf (step x s)) \<noteq> findUser uid s)
           \<and> list_all (\<lambda>c. redeemedAt c = None) (couponHistory u)
           \<longrightarrow> list_all (\<lambda>c. redeemedAt c = None) (couponHistory u'))"
proof -
  have same: ?thesis
    if a: "findUser uid (stateOf (step x s)) = findUser uid s"
      and b: "\<not> (checkInOf uid x \<and> thrown (step x s) = None)"
    using a b usr i2 by (intro exI[of _ u]) simp
  show ?thesis
  proof (cases x)
    case (CheckIn i v t)
    show ?thesis
    proof (cases "i = uid")
      case False
      then show ?thesis using CheckIn by (intro same) (simp_all add: performCheckIn_other)
    next
      case True
      show ?thesis
      proof (cases "performCheckIn uid v t s")
        case (Thrown e s')
        then have "thrown (performCheckIn uid v t s) = Some e" by simp
        from performCheckIn_thrown_users[OF this] Thrown have "findUser uid s' = findUser uid s"
          by (simp add: findUser_def)
        with Thrown CheckIn True show ?thesis by (intro same) simp_all
      next
        case (Crashed e s')
        then have "thrown (performCheckIn uid v t s) = Some e" by simp
        from performCheckIn_thrown_users[OF this] Crashed have "findUser uid s' = findUser uid s"
          by (simp add: findUser_def)
        with Crashed CheckIn True show ?thesis by (intro same) simp_all
      next
        case (Done s')
        from performCheckIn_done_findUser[OF usr Done] obtain u' s1 s2
          where r: "performCheckIn_updater uid t u s1 = Inr (u', s2)"
            and f: "findUser uid s' = Some u'" by blast
        note e = performCheckIn_updater_Inr[OF r findUser_id[OF usr]]
        have t1: "totalCheckIns u' = totalCheckIns u + 1" by (subst e) simp
        have c1: "couponsAvailable u' =
            couponsAvailable u + (if (totalCheckIns u + 1) mod 5 = 0 then 1 else 0)"
          by (subst e) simp
        have h1: "couponHistory u' = couponHistory u @
                 (if (totalCheckIns u + 1) mod 5 = 0
                  then [\<lparr>id_cp = fst (genId ''cp'' (snd (genId ''ci'' s1))), createdAt = t,
                         redeemedAt = None\<rparr>]
                  else [])"
          by (subst e) simp
        have d: "(totalCheckIns u + 1) div 5 - totalCheckIns u div 5 =
            (if (totalCheckIns u + 1) mod 5 = 0 then 1 else 0)"
          by presburger
        have l: "int (length (couponHistory u')) = totalCheckIns u' div 5"
          using i2 d unfolding h1 t1 by (simp split: if_splits)
        have n: "list_all (\<lambda>c. redeemedAt c = None) (couponHistory u)
           \<longrightarrow> list_all (\<lambda>c. redeemedAt c = None) (couponHistory u')"
          unfolding h1 by simp
        show ?thesis
          using f t1 l n c1 d CheckIn True Done
          by (intro exI[of _ u']) simp
      qed
    qed
  next
    case (Redeem i t)
    show ?thesis
    proof (cases "i = uid")
      case False
      then show ?thesis using Redeem by (intro same) (simp_all add: redeemCoupon_other)
    next
      case True
      let ?u' = "fst (redeemCoupon_updater uid t u s)"
      have f: "findUser uid (stateOf (step x s)) = Some ?u'"
        using Redeem True redeemCoupon_findUser[OF usr, of t] by simp
      from redeemCoupon_updater_cases[of uid t u s] show ?thesis
      proof
        assume "?u' = u"
        with f usr show ?thesis using Redeem by (intro same) simp_all
      next
        assume "\<exists>i. i < length (couponHistory u) \<and> ?u' =
              u\<lparr>couponsAvailable := couponsAvailable u - 1,
                 couponHistory := (couponHistory u)[i := (couponHistory u ! i)\<lparr>redeemedAt := Some t\<rparr>]\<rparr>"
        then obtain k where e: "?u' =
              u\<lparr>couponsAvailable := couponsAvailable u - 1,
                 couponHistory := (couponHistory u)[k := (couponHistory u ! k)\<lparr>redeemedAt := Some t\<rparr>]\<rparr>"
          by blast
        have c: "couponsAvailable ?u' = couponsAvailable u - 1" by (subst e) simp
        then have ne: "?u' \<noteq> u" by auto
        have t1: "totalCheckIns ?u' = totalCheckIns u" by (subst e) simp
        have l1: "length (couponHistory ?u') = length (couponHistory u)" by (subst e) simp
        show ?thesis
          using f usr ne c t1 l1 i2 Redeem True
          by (intro exI[of _ ?u']) simp
      qed
    qed
  next
    case (Delete i c t)
    with nd have "i \<noteq> uid" by simp
    then show ?thesis using Delete by (intro same) (simp_all add: deleteCheckIn_other)
  qed
qed

lemma run_cadence:
  assumes "findUser uid s = Some u"
    and "list_all (\<lambda>x. \<not> deleteOf uid x) ops"
    and "int (length (couponHistory u)) = totalCheckIns u div 5"
  shows "\<exists>u'. findUser uid (run ops s) = Some u'
      \<and> totalCheckIns u' = totalCheckIns u + int (checkInsDone uid ops s)
      \<and> int (length (couponHistory u')) = totalCheckIns u' div 5
      \<and> couponsAvailable u' =
          couponsAvailable u + (totalCheckIns u' div 5 - totalCheckIns u div 5)
          - int (redemptionsDone uid ops s)
      \<and> (redemptionsDone uid ops s = 0 \<and> list_all (\<lambda>c. redeemedAt c = None) (couponHistory u)
           \<longrightarrow> list_all (\<lambda>c. redeemedAt c = None) (couponHistory u'))"
  using assms
proof (induction ops arbitrary: s u)
  case Nil
  then show ?case by simp
next
  case (Cons x xs)
  from Cons.prems(2) have nd: "\<not> deleteOf uid x" and rest: "list_all (\<lambda>x. \<not> deleteOf uid x) xs"
    by simp_all
  from step_cadence[OF Cons.prems(1) nd Cons.prems(3)] obtain u1 where
    f1: "findUser uid (stateOf (step x s)) = Some u1"
    and t1: "totalCheckIns u1 =
          totalCheckIns u + (if checkInOf uid x \<and> thrown (step x s) = None then 1 else 0)"
    and l1: "int (length (couponHistory u1)) = totalCheckIns u1 div 5"
    and c1: "couponsAvailable u1 =
          couponsAvailable u + (totalCheckIns u1 div 5 - totalCheckIns u div 5)
          - (if redeemOf uid x \<and> findUser uid (stateOf (step x s)) \<noteq> findUser uid s then 1 else 0)"
    and n1: "\<not> (redeemOf uid x \<and> findUser uid (stateOf (step x s)) \<noteq> findUser uid s)
           \<and> list_all (\<lambda>c. redeemedAt c = None) (couponHistory u)
           \<longrightarrow> list_all (\<lambda>c. redeemedAt c = None) (couponHistory u1)"
    by blast
  from Cons.IH[OF f1 rest l1] obtain u2 where
    f2: "findUser uid (run xs (stateOf (step x s))) = Some u2"
    and t2: "totalCheckIns u2 = totalCheckIns u1 + int (checkInsDone uid xs (stateOf (step x s)))"
    and l2: "int (length (couponHistory u2)) = totalCheckIns u2 div 5"
    and c2: "couponsAvailable u2 =
          couponsAvailable u1 + (totalCheckIns u2 div 5 - totalCheckIns u1 div 5)
          - int (redemptionsDone uid xs (stateOf (step x s)))"
    and n2: "redemptionsDone uid xs (stateOf (step x s)) = 0
           \<and> list_all (\<lambda>c. redeemedAt c = None) (couponHistory u1)
           \<longrightarrow> list_all (\<lambda>c. redeemedAt c = None) (couponHistory u2)"
    by blast
  have t: "totalCheckIns u2 = totalCheckIns u + int (checkInsDone uid (x # xs) s)"
    using t1 t2 by simp
  have c: "couponsAvailable u2 =
          couponsAvailable u + (totalCheckIns u2 div 5 - totalCheckIns u div 5)
          - int (redemptionsDone uid (x # xs) s)"
    using c1 c2 by simp
  have n: "redemptionsDone uid (x # xs) s = 0 \<and> list_all (\<lambda>c. redeemedAt c = None) (couponHistory u)
           \<longrightarrow> list_all (\<lambda>c. redeemedAt c = None) (couponHistory u2)"
    using n1 n2 by (simp split: if_splits)
  from f2 t l2 c n show ?case by (intro exI[of _ u2]) simp
qed

section \<open>Coupon cadence\<close>

text \<open>
  C6. For a fresh user and any sequence of operations with no deletion for that user,
  with \<open>N\<close> the number of check-ins of the user that complete and \<open>R\<close> the number of
  redemptions performed for the user: afterwards \<^verbatim>\<open>totalCheckIns\<close> is \<open>N\<close>,
  \<^verbatim>\<open>couponHistory\<close> has length \<open>N div 5\<close>, \<^verbatim>\<open>couponsAvailable\<close> is \<open>N div 5 - R\<close>, and
  with no redemption every coupon is unredeemed. Every completed check-in increments
  \<^verbatim>\<open>totalCheckIns\<close> and appends one new unredeemed coupon exactly when the new total is
  a multiple of 5. (After 4 check-ins: no coupon; after the 5th: one unredeemed coupon,
  \<^verbatim>\<open>couponsAvailable\<close> 1; see the witness.)
\<close>

theorem coupon_cadence:
  assumes usr: "findUser uid s0 = Some u0"
    and fresh: "freshUser u0"
    and nodel: "list_all (\<lambda>x. \<not> deleteOf uid x) ops"
  shows "(\<exists>u. findUser uid (run ops s0) = Some u
            \<and> totalCheckIns u = int (checkInsDone uid ops s0)
            \<and> length (couponHistory u) = checkInsDone uid ops s0 div 5
            \<and> couponsAvailable u =
                int (checkInsDone uid ops s0 div 5) - int (redemptionsDone uid ops s0)
            \<and> (redemptionsDone uid ops s0 = 0 \<longrightarrow>
                 list_all (\<lambda>c. redeemedAt c = None) (couponHistory u)))
       \<and> (\<forall>v t s s' u. findUser uid s = Some u \<and> performCheckIn uid v t s = Done s' \<longrightarrow>
            (\<exists>u' cpId. findUser uid s' = Some u'
               \<and> totalCheckIns u' = totalCheckIns u + 1
               \<and> couponHistory u' =
                   (if totalCheckIns u' mod 5 = 0
                    then couponHistory u @ [\<lparr>id_cp = cpId, createdAt = t, redeemedAt = None\<rparr>]
                    else couponHistory u)
               \<and> couponsAvailable u' =
                   couponsAvailable u + (if totalCheckIns u' mod 5 = 0 then 1 else 0)))"
proof (rule conjI)
  from fresh have z: "totalCheckIns u0 = 0" "couponsAvailable u0 = 0" "couponHistory u0 = []"
    by (simp_all add: freshUser_def)
  then have i2: "int (length (couponHistory u0)) = totalCheckIns u0 div 5" by simp
  from run_cadence[OF usr nodel i2] obtain u where
    f: "findUser uid (run ops s0) = Some u"
    and t: "totalCheckIns u = totalCheckIns u0 + int (checkInsDone uid ops s0)"
    and l: "int (length (couponHistory u)) = totalCheckIns u div 5"
    and c: "couponsAvailable u =
          couponsAvailable u0 + (totalCheckIns u div 5 - totalCheckIns u0 div 5)
          - int (redemptionsDone uid ops s0)"
    and n: "redemptionsDone uid ops s0 = 0 \<and> list_all (\<lambda>c. redeemedAt c = None) (couponHistory u0)
           \<longrightarrow> list_all (\<lambda>c. redeemedAt c = None) (couponHistory u)"
    by blast
  from t z have t': "totalCheckIns u = int (checkInsDone uid ops s0)" by simp
  from l t' have "int (length (couponHistory u)) = int (checkInsDone uid ops s0 div 5)"
    by (simp add: zdiv_int)
  then have l': "length (couponHistory u) = checkInsDone uid ops s0 div 5"
    by (simp only: of_nat_eq_iff)
  from c z t' have c': "couponsAvailable u =
      int (checkInsDone uid ops s0 div 5) - int (redemptionsDone uid ops s0)"
    by (simp add: zdiv_int)
  from n z have n': "redemptionsDone uid ops s0 = 0 \<longrightarrow>
      list_all (\<lambda>c. redeemedAt c = None) (couponHistory u)"
    by simp
  from f t' l' c' n' show "\<exists>u. findUser uid (run ops s0) = Some u
            \<and> totalCheckIns u = int (checkInsDone uid ops s0)
            \<and> length (couponHistory u) = checkInsDone uid ops s0 div 5
            \<and> couponsAvailable u =
                int (checkInsDone uid ops s0 div 5) - int (redemptionsDone uid ops s0)
            \<and> (redemptionsDone uid ops s0 = 0 \<longrightarrow>
                 list_all (\<lambda>c. redeemedAt c = None) (couponHistory u))"
    by (intro exI[of _ u] conjI)
next
  show "\<forall>v t s s' u. findUser uid s = Some u \<and> performCheckIn uid v t s = Done s' \<longrightarrow>
            (\<exists>u' cpId. findUser uid s' = Some u'
               \<and> totalCheckIns u' = totalCheckIns u + 1
               \<and> couponHistory u' =
                   (if totalCheckIns u' mod 5 = 0
                    then couponHistory u @ [\<lparr>id_cp = cpId, createdAt = t, redeemedAt = None\<rparr>]
                    else couponHistory u)
               \<and> couponsAvailable u' =
                   couponsAvailable u + (if totalCheckIns u' mod 5 = 0 then 1 else 0))"
  proof (intro allI impI)
    fix v t s s' u
    assume a: "findUser uid s = Some u \<and> performCheckIn uid v t s = Done s'"
    then have usr': "findUser uid s = Some u" and dn: "performCheckIn uid v t s = Done s'"
      by blast+
    from performCheckIn_done_findUser[OF usr' dn] obtain u' s1 s2
      where r: "performCheckIn_updater uid t u s1 = Inr (u', s2)"
        and f: "findUser uid s' = Some u'" by blast
    note e = performCheckIn_updater_Inr[OF r findUser_id[OF usr']]
    have t1: "totalCheckIns u' = totalCheckIns u + 1" by (subst e) simp
    have c1: "couponsAvailable u' =
        couponsAvailable u + (if totalCheckIns u' mod 5 = 0 then 1 else 0)"
      unfolding t1 by (subst e) simp
    have h1: "couponHistory u' =
        (if totalCheckIns u' mod 5 = 0
         then couponHistory u @ [\<lparr>id_cp = fst (genId ''cp'' (snd (genId ''ci'' s1))),
                                  createdAt = t, redeemedAt = None\<rparr>]
         else couponHistory u)"
      unfolding t1 by (subst e) simp
    from f t1 h1 c1 show "\<exists>u' cpId. findUser uid s' = Some u'
               \<and> totalCheckIns u' = totalCheckIns u + 1
               \<and> couponHistory u' =
                   (if totalCheckIns u' mod 5 = 0
                    then couponHistory u @ [\<lparr>id_cp = cpId, createdAt = t, redeemedAt = None\<rparr>]
                    else couponHistory u)
               \<and> couponsAvailable u' =
                   couponsAvailable u + (if totalCheckIns u' mod 5 = 0 then 1 else 0)"
      by blast
  qed
qed

theorem coupon_cadence_witness:
  "findUser ''u_1'' seedState = Some (hd (users seedState))
   \<and> freshUser (hd (users seedState))
   \<and> list_all (\<lambda>x. \<not> deleteOf ''u_1'' x) (take 4 fiveCheckIns)
   \<and> checkInsDone ''u_1'' (take 4 fiveCheckIns) seedState = 4
   \<and> (\<exists>u. findUser ''u_1'' (run (take 4 fiveCheckIns) seedState) = Some u
          \<and> totalCheckIns u = 4 \<and> couponHistory u = [] \<and> couponsAvailable u = 0)
   \<and> list_all (\<lambda>x. \<not> deleteOf ''u_1'' x) (fiveCheckIns @ [Redeem ''u_1'' 1710000000000])
   \<and> checkInsDone ''u_1'' fiveCheckIns seedState = 5
   \<and> redemptionsDone ''u_1'' fiveCheckIns seedState = 0
   \<and> (\<exists>u. findUser ''u_1'' (run fiveCheckIns seedState) = Some u
          \<and> totalCheckIns u = 5 \<and> length (couponHistory u) = 1 \<and> couponsAvailable u = 1
          \<and> list_all (\<lambda>c. redeemedAt c = None) (couponHistory u))
   \<and> redemptionsDone ''u_1'' (fiveCheckIns @ [Redeem ''u_1'' 1710000000000]) seedState = 1
   \<and> (\<exists>u. findUser ''u_1'' (run (fiveCheckIns @ [Redeem ''u_1'' 1710000000000]) seedState) = Some u
          \<and> totalCheckIns u = 5 \<and> length (couponHistory u) = 1 \<and> couponsAvailable u = 0)"
proof -
  have h1: "findUser ''u_1'' seedState = Some (hd (users seedState))" by code_simp
  have h2: "freshUser (hd (users seedState))" by code_simp
  have a3: "list_all (\<lambda>x. \<not> deleteOf ''u_1'' x) (take 4 fiveCheckIns)" by code_simp
  have a4: "checkInsDone ''u_1'' (take 4 fiveCheckIns) seedState = 4" by code_simp
  have a5: "redemptionsDone ''u_1'' (take 4 fiveCheckIns) seedState = 0" by code_simp
  have b3: "list_all (\<lambda>x. \<not> deleteOf ''u_1'' x) fiveCheckIns" by code_simp
  have b4: "checkInsDone ''u_1'' fiveCheckIns seedState = 5" by code_simp
  have b5: "redemptionsDone ''u_1'' fiveCheckIns seedState = 0" by code_simp
  have c3: "list_all (\<lambda>x. \<not> deleteOf ''u_1'' x) (fiveCheckIns @ [Redeem ''u_1'' 1710000000000])"
    by code_simp
  have c4: "checkInsDone ''u_1'' (fiveCheckIns @ [Redeem ''u_1'' 1710000000000]) seedState = 5"
    by code_simp
  have c5: "redemptionsDone ''u_1'' (fiveCheckIns @ [Redeem ''u_1'' 1710000000000]) seedState = 1"
    by code_simp
  from coupon_cadence[OF h1 h2 a3] have a: "\<exists>u. findUser ''u_1'' (run (take 4 fiveCheckIns) seedState) = Some u
          \<and> totalCheckIns u = 4 \<and> couponHistory u = [] \<and> couponsAvailable u = 0"
    unfolding a4 a5 by auto
  from coupon_cadence[OF h1 h2 b3] have b: "\<exists>u. findUser ''u_1'' (run fiveCheckIns seedState) = Some u
          \<and> totalCheckIns u = 5 \<and> length (couponHistory u) = 1 \<and> couponsAvailable u = 1
          \<and> list_all (\<lambda>c. redeemedAt c = None) (couponHistory u)"
    unfolding b4 b5 by auto
  from coupon_cadence[OF h1 h2 c3] have c: "\<exists>u. findUser ''u_1'' (run (fiveCheckIns @ [Redeem ''u_1'' 1710000000000]) seedState) = Some u
          \<and> totalCheckIns u = 5 \<and> length (couponHistory u) = 1 \<and> couponsAvailable u = 0"
    unfolding c4 c5 by auto
  from h1 h2 a3 a4 a c3 b4 b5 b c5 c show ?thesis by (intro conjI)
qed

section \<open>A check-in whose updater throws\<close>



lemma performCheckIn_updater_throws:
  assumes rate: "\<not> startTs - lastActionRef s < 1200"
    and dup: "\<not> (scanValue \<noteq> [] \<and> scanValue = lastScanValRef s \<and> startTs - lastScanTsRef s < 2500)"
    and usr: "findUser userId s = Some u"
    and thr: "performCheckIn_updater userId startTs u
                (s\<lparr>lastActionRef := startTs, lastScanValRef := scanValue, lastScanTsRef := startTs\<rparr>)
              = Inl (e, s')"
  shows "performCheckIn userId scanValue startTs s =
           Crashed e (s\<lparr>lastActionRef := startTs, lastScanValRef := scanValue,
                        lastScanTsRef := startTs, idCounter := idCounter s'\<rparr>)"
proof -
  let ?s1 = "s\<lparr>lastActionRef := startTs, lastScanValRef := scanValue, lastScanTsRef := startTs\<rparr>"
  have fnd: "findUser userId ?s1 = Some u" using usr by (simp add: findUser_def)
  have "setUsers (performCheckIn_updater userId startTs) ?s1 = Crashed e (?s1\<lparr>idCounter := idCounter s'\<rparr>)"
    using performCheckIn_updater_skip fnd thr by (rule setUsers_first_throw)
  then show ?thesis by (simp add: performCheckIn_passed[OF rate dup])
qed

lemma performCheckIn_anomaly_crash:
  assumes rate: "\<not> startTs - lastActionRef s < 1200"
    and dup: "\<not> (scanValue \<noteq> [] \<and> scanValue = lastScanValRef s \<and> startTs - lastScanTsRef s < 2500)"
    and usr: "findUser userId s = Some u"
    and prior: "lastCheckInAt u \<noteq> 0"
    and before: "startTs < lastCheckInAt u"
  shows "performCheckIn userId scanValue startTs s =
           Crashed TIME_ANOMALY
             (s\<lparr>lastActionRef := startTs, lastScanValRef := scanValue, lastScanTsRef := startTs,
                idCounter := Suc (idCounter s)\<rparr>)"
proof -
  let ?s1 = "s\<lparr>lastActionRef := startTs, lastScanValRef := scanValue, lastScanTsRef := startTs\<rparr>"
  have a: "lastCheckInAt u \<noteq> 0 \<and> startTs - lastCheckInAt u < 0" using prior before by simp
  note t = performCheckIn_updater_anomaly[OF findUser_id[OF usr] a, of ?s1]
  from performCheckIn_updater_throws[OF rate dup usr t] show ?thesis
    by (simp add: commitAudit_def genId_def)
qed


section \<open>The clock-anomaly guard\<close>

text \<open>
  C8 (the program departs from the claim). Take a check-in attempt that passes the
  rate-limit and duplicate guards, by a user with a prior check-in (\<^verbatim>\<open>lastCheckInAt\<close>
  non-zero) whose timestamp is strictly before \<^verbatim>\<open>lastCheckInAt\<close>. The updater of
  \<^verbatim>\<open>performCheckIn\<close>, run on that user's record, does call \<^verbatim>\<open>commitAudit\<close> for
  \<^verbatim>\<open>clock.anomaly\<close> and throw \<^verbatim>\<open>TIME_ANOMALY\<close>; but it runs inside \<^verbatim>\<open>setUsers\<close>, so
  \<^verbatim>\<open>performCheckIn\<close> returns to its caller with no error, the audit log is the one
  before the attempt (no \<^verbatim>\<open>clock.anomaly\<close> entry), the user records are unchanged, and
  \<^verbatim>\<open>simulateScan\<close>, for that user with the right code, shows the message of success.
\<close>

theorem clock_anomaly_not_reported:
  assumes rate: "\<not> startTs - lastActionRef s < 1200"
    and dup: "\<not> (scanValue \<noteq> [] \<and> scanValue = lastScanValRef s \<and> startTs - lastScanTsRef s < 2500)"
    and usr: "findUser userId s = Some u"
    and prior: "lastCheckInAt u \<noteq> 0"
    and before: "startTs < lastCheckInAt u"
  shows "performCheckIn_updater userId startTs u
           (s\<lparr>lastActionRef := startTs, lastScanValRef := scanValue, lastScanTsRef := startTs\<rparr>) =
           Inl (TIME_ANOMALY,
                commitAudit ''clock.anomaly''
                  [(''userId'', Str userId), (''last'', Num (lastCheckInAt u)), (''now'', Num startTs)]
                  (authUserId s) startTs
                  (s\<lparr>lastActionRef := startTs, lastScanValRef := scanValue, lastScanTsRef := startTs\<rparr>))
         \<and> (\<exists>c. performCheckIn userId scanValue startTs s = Crashed TIME_ANOMALY c)
         \<and> caught (performCheckIn userId scanValue startTs s) = None
         \<and> auditLog (stateOf (performCheckIn userId scanValue startTs s)) = auditLog s
         \<and> users (stateOf (performCheckIn userId scanValue startTs s)) = users s
         \<and> (scanValue = QR_CONSTANT \<longrightarrow>
              fst (simulateScan u scanValue startTs s) = Check_in_successful)"
proof -
  let ?s1 = "s\<lparr>lastActionRef := startTs, lastScanValRef := scanValue, lastScanTsRef := startTs\<rparr>"
  have a: "lastCheckInAt u \<noteq> 0 \<and> startTs - lastCheckInAt u < 0" using prior before by simp
  have t: "performCheckIn_updater userId startTs u ?s1 =
           Inl (TIME_ANOMALY,
                commitAudit ''clock.anomaly''
                  [(''userId'', Str userId), (''last'', Num (lastCheckInAt u)), (''now'', Num startTs)]
                  (authUserId s) startTs ?s1)"
    using performCheckIn_updater_anomaly[OF findUser_id[OF usr] a, of ?s1] by simp
  note c = performCheckIn_anomaly_crash[OF rate dup usr prior before]
  have m: "fst (simulateScan u scanValue startTs s) = Check_in_successful"
    if "scanValue = QR_CONSTANT"
    using that c findUser_id[OF usr] by (simp add: simulateScan_def)
  from c have e: "\<exists>c. performCheckIn userId scanValue startTs s = Crashed TIME_ANOMALY c"
    by blast
  from t e c m show ?thesis by simp
qed

theorem clock_anomaly_not_reported_witness:
  "\<not> 1702419140000 - lastActionRef (reloaded fiveState) < 1200
   \<and> \<not> (QR_CONSTANT \<noteq> [] \<and> QR_CONSTANT = lastScanValRef (reloaded fiveState)
         \<and> 1702419140000 - lastScanTsRef (reloaded fiveState) < 2500)
   \<and> findUser ''u_1'' (reloaded fiveState) = Some (hd (users fiveState))
   \<and> lastCheckInAt (hd (users fiveState)) = 1702419200000
   \<and> thrown (performCheckIn ''u_1'' QR_CONSTANT 1702419140000 (reloaded fiveState)) = Some TIME_ANOMALY
   \<and> caught (performCheckIn ''u_1'' QR_CONSTANT 1702419140000 (reloaded fiveState)) = None
   \<and> auditLog (stateOf (performCheckIn ''u_1'' QR_CONSTANT 1702419140000 (reloaded fiveState)))
       = auditLog (reloaded fiveState)
   \<and> list_all (\<lambda>e. type_log e \<noteq> ''clock.anomaly'')
       (auditLog (stateOf (performCheckIn ''u_1'' QR_CONSTANT 1702419140000 (reloaded fiveState))))
   \<and> users (stateOf (performCheckIn ''u_1'' QR_CONSTANT 1702419140000 (reloaded fiveState)))
       = users (reloaded fiveState)
   \<and> fst (simulateScan (hd (users fiveState)) QR_CONSTANT 1702419140000 (reloaded fiveState))
       = Check_in_successful"
proof -
  have h1: "\<not> 1702419140000 - lastActionRef (reloaded fiveState) < 1200" by code_simp
  have h2: "\<not> (QR_CONSTANT \<noteq> [] \<and> QR_CONSTANT = lastScanValRef (reloaded fiveState)
         \<and> 1702419140000 - lastScanTsRef (reloaded fiveState) < 2500)" by code_simp
  have h3: "findUser ''u_1'' (reloaded fiveState) = Some (hd (users fiveState))" by code_simp
  have h4: "lastCheckInAt (hd (users fiveState)) = 1702419200000" by code_simp
  have h4': "lastCheckInAt (hd (users fiveState)) \<noteq> 0" by code_simp
  have h5: "1702419140000 < lastCheckInAt (hd (users fiveState))" by code_simp
  have h7: "list_all (\<lambda>e. type_log e \<noteq> ''clock.anomaly'') (auditLog (reloaded fiveState))"
    by code_simp
  note t = clock_anomaly_not_reported[OF h1 h2 h3 h4' h5]
  from t obtain c where
    "performCheckIn ''u_1'' QR_CONSTANT 1702419140000 (reloaded fiveState) = Crashed TIME_ANOMALY c"
    by blast
  then have t2: "thrown (performCheckIn ''u_1'' QR_CONSTANT 1702419140000 (reloaded fiveState))
       = Some TIME_ANOMALY" by simp
  from t have t3: "caught (performCheckIn ''u_1'' QR_CONSTANT 1702419140000 (reloaded fiveState)) = None"
    by blast
  from t have t4: "auditLog (stateOf (performCheckIn ''u_1'' QR_CONSTANT 1702419140000 (reloaded fiveState)))
       = auditLog (reloaded fiveState)" by blast
  from h7 have t5: "list_all (\<lambda>e. type_log e \<noteq> ''clock.anomaly'')
       (auditLog (stateOf (performCheckIn ''u_1'' QR_CONSTANT 1702419140000 (reloaded fiveState))))"
    unfolding t4 .
  from t have t6: "users (stateOf (performCheckIn ''u_1'' QR_CONSTANT 1702419140000 (reloaded fiveState)))
       = users (reloaded fiveState)" by blast
  from t have t7: "fst (simulateScan (hd (users fiveState)) QR_CONSTANT 1702419140000 (reloaded fiveState))
       = Check_in_successful" by blast
  from h1 h2 h3 h4 t2 t3 t4 t5 t6 t7 show ?thesis by (intro conjI)
qed

section \<open>Passing the first two guards arms the rate limit\<close>



section \<open>The order of the check-in guards\<close>




end
